theory Spec2Isabelle
  imports Complex_Main "HOL-Library.Multiset"
begin

section \<open>Core type definitions (types.ts)\<close>

text \<open>
  Numbers of the source are IEEE doubles; they are modelled as mathematical reals, and
  timestamps (epoch milliseconds) as integers. Strings are ASCII character lists.
  \<open>Date.now()\<close> and \<open>uuid()\<close> are inputs of the operations that call them.
\<close>

datatype SourceType = Experienced | Told | Read | Inferred | Observed

datatype MemoryCategory =
  Fact | Event | Opinion | Preference | Procedure | Relationship | Observation

record Attribution =
  atype :: SourceType
  actor :: "string option"
  acontext :: "string option"
  timestamp :: int

record Confidence =
  score :: real
  basis :: "string list"
  lastVerified :: "int option"
  corroborations :: nat
  contradictions :: nat

record Memory =
  mem_id :: string
  content :: string
  summary :: "string option"
  attribution :: Attribution
  confidence :: Confidence
  entities :: "string list"
  tags :: "string list"
  category :: MemoryCategory
  created :: int
  updated :: int
  lastAccessed :: int
  accessCount :: nat
  decayRate :: real
  relevanceScore :: real
  pinned :: bool

datatype EntityType = Person | Project | Place | Concept | Organization | Agent

record Entity =
  ent_id :: string
  name :: string
  etype :: EntityType
  description :: "string option"
  aliases :: "string list"
  metadata :: "(string \<times> string) list"
  ent_created :: int
  ent_updated :: int
  memoryCount :: nat

text \<open>\<open>CreateMemoryInput\<close>: the attribution carries no timestamp yet.\<close>

record CreateMemoryInput =
  in_content :: string
  in_summary :: "string option"
  in_type :: SourceType
  in_actor :: "string option"
  in_context :: "string option"
  in_entities :: "string list option"
  in_tags :: "string list option"
  in_category :: MemoryCategory
  in_decayRate :: "real option"
  in_pinned :: "bool option"

fun SOURCE_BASE_CONFIDENCE :: "SourceType \<Rightarrow> real" where
  "SOURCE_BASE_CONFIDENCE Experienced = 9 / 10"
| "SOURCE_BASE_CONFIDENCE Observed = 8 / 10"
| "SOURCE_BASE_CONFIDENCE Told = 6 / 10"
| "SOURCE_BASE_CONFIDENCE Read = 5 / 10"
| "SOURCE_BASE_CONFIDENCE Inferred = 4 / 10"

fun CATEGORY_DEFAULT_DECAY :: "MemoryCategory \<Rightarrow> real" where
  "CATEGORY_DEFAULT_DECAY Fact = 10 / 100"
| "CATEGORY_DEFAULT_DECAY Procedure = 15 / 100"
| "CATEGORY_DEFAULT_DECAY Relationship = 20 / 100"
| "CATEGORY_DEFAULT_DECAY Preference = 25 / 100"
| "CATEGORY_DEFAULT_DECAY Event = 30 / 100"
| "CATEGORY_DEFAULT_DECAY Opinion = 35 / 100"
| "CATEGORY_DEFAULT_DECAY Observation = 40 / 100"

section \<open>JavaScript helpers\<close>

text \<open>Truthiness of an optional string: \<open>undefined\<close> and the empty string are falsy.\<close>

fun truthy :: "string option \<Rightarrow> bool" where
  "truthy None = False"
| "truthy (Some s) = (s \<noteq> [])"

text \<open>\<open>Math.round\<close> rounds to the nearest integer, halves towards plus infinity.\<close>

definition Math_round :: "real \<Rightarrow> int" where
  "Math_round x = \<lfloor>x + 1 / 2\<rfloor>"

text \<open>The idiom \<open>Math.round(x * 100) / 100\<close>.\<close>

definition round2 :: "real \<Rightarrow> real" where
  "round2 x = real_of_int (Math_round (x * 100)) / 100"

text \<open>The template-literal rendering of a source type and of its base score.\<close>

fun SourceType_str :: "SourceType \<Rightarrow> string" where
  "SourceType_str Experienced = ''experienced''"
| "SourceType_str Told = ''told''"
| "SourceType_str Read = ''read''"
| "SourceType_str Inferred = ''inferred''"
| "SourceType_str Observed = ''observed''"

fun base_str :: "SourceType \<Rightarrow> string" where
  "base_str Experienced = ''0.9''"
| "base_str Observed = ''0.8''"
| "base_str Told = ''0.6''"
| "base_str Read = ''0.5''"
| "base_str Inferred = ''0.4''"

section \<open>Confidence model (MemoryStore.computeInitialConfidence)\<close>

definition computeInitialConfidence :: "CreateMemoryInput \<Rightarrow> Confidence" where
  "computeInitialConfidence input =
     (let baseScore = SOURCE_BASE_CONFIDENCE (in_type input);
          basis0 = [SourceType_str (in_type input) @ '' source (base: '' @ base_str (in_type input) @ '')''];
          basis1 = (if truthy (in_actor input)
                    then basis0 @ [''from: '' @ the (in_actor input)] else basis0);
          score1 = (if truthy (in_context input) then baseScore + 5 / 100 else baseScore);
          basis2 = (if truthy (in_context input)
                    then basis1 @ [''has source context''] else basis1)
      in \<lparr> score = min 1 (round2 score1), basis = basis2, lastVerified = None,
           corroborations = 0, contradictions = 0 \<rparr>)"

section \<open>SQLite storage layer (MemoryStore)\<close>

text \<open>
  The database is three tables, each a list of rows in insertion order. The columns
  of \<open>memories\<close> keep their SQL names where these differ from the fields of
  \<open>Memory\<close>; \<open>pinned\<close> holds 0 or 1 and is a boolean here.
\<close>

record MemoryRow =
  row_id :: string
  row_content :: string
  row_summary :: "string option"
  row_attribution :: Attribution
  row_confidence :: Confidence
  row_category :: MemoryCategory
  row_tags :: "string list"
  row_created :: int
  row_updated :: int
  last_accessed :: int
  access_count :: nat
  decay_rate :: real
  relevance_score :: real
  row_pinned :: bool
  embedding :: "real list option"

record Store =
  memories :: "MemoryRow list"
  entity_table :: "Entity list"
  memory_entities :: "(string \<times> string) list"

datatype error = SQLITE_CONSTRAINT_PRIMARYKEY | SQLITE_CONSTRAINT_FOREIGNKEY | EmbedderRejected

definition emptyStore :: Store where
  "emptyStore = \<lparr> memories = [], entity_table = [], memory_entities = [] \<rparr>"

definition getRow :: "Store \<Rightarrow> string \<Rightarrow> MemoryRow option" where
  "getRow s i = find (\<lambda>r. row_id r = i) (memories s)"

definition getEntity :: "Store \<Rightarrow> string \<Rightarrow> Entity option" where
  "getEntity s i = find (\<lambda>e. ent_id e = i) (entity_table s)"

definition rowToMemory :: "Store \<Rightarrow> MemoryRow \<Rightarrow> Memory" where
  "rowToMemory s row =
     \<lparr> mem_id = row_id row, content = row_content row, summary = row_summary row,
       attribution = row_attribution row, confidence = row_confidence row,
       entities = map snd (filter (\<lambda>l. fst l = row_id row) (memory_entities s)),
       tags = row_tags row, category = row_category row,
       created = row_created row, updated = row_updated row,
       lastAccessed = last_accessed row, accessCount = access_count row,
       decayRate = decay_rate row, relevanceScore = relevance_score row,
       pinned = row_pinned row \<rparr>"

subsection \<open>linkEntities\<close>

text \<open>\<open>INSERT OR IGNORE INTO entities\<close>: nothing happens when the id exists.\<close>

definition autoCreateEntity :: "int \<Rightarrow> string \<Rightarrow> Store \<Rightarrow> Store" where
  "autoCreateEntity now entityId s =
     (if getEntity s entityId \<noteq> None then s
      else s\<lparr> entity_table := entity_table s @
             [\<lparr> ent_id = entityId, name = entityId, etype = Concept, description = None,
                aliases = [], metadata = [], ent_created = now, ent_updated = now,
                memoryCount = 0 \<rparr>] \<rparr>)"

text \<open>
  \<open>INSERT OR IGNORE INTO memory_entities\<close>: a duplicate of the primary key is
  ignored; the foreign keys (enforced, \<open>foreign_keys = ON\<close>) are not covered by
  \<open>OR IGNORE\<close> and make the statement throw.
\<close>

definition insertLink :: "string \<Rightarrow> string \<Rightarrow> Store \<Rightarrow> error + Store" where
  "insertLink memoryId entityId s =
     (if (memoryId, entityId) \<in> set (memory_entities s) then Inr s
      else if getRow s memoryId = None \<or> getEntity s entityId = None
      then Inl SQLITE_CONSTRAINT_FOREIGNKEY
      else Inr (s\<lparr> memory_entities := memory_entities s @ [(memoryId, entityId)] \<rparr>))"

definition updateCount :: "string \<Rightarrow> Store \<Rightarrow> Store" where
  "updateCount entityId s =
     s\<lparr> entity_table :=
          map (\<lambda>e. if ent_id e = entityId then e\<lparr> memoryCount := memoryCount e + 1 \<rparr> else e)
              (entity_table s) \<rparr>"

fun linkEntities :: "int \<Rightarrow> string \<Rightarrow> string list \<Rightarrow> Store \<Rightarrow> error + Store" where
  "linkEntities now memoryId [] s = Inr s"
| "linkEntities now memoryId (entityId # rest) s =
     (case insertLink memoryId entityId (autoCreateEntity now entityId s) of
        Inl e \<Rightarrow> Inl e
      | Inr s' \<Rightarrow> linkEntities now memoryId rest (updateCount entityId s'))"

subsection \<open>createMemory, getMemory, updateMemory\<close>

text \<open>
  The memory object that createMemory builds; \<open>uid\<close> is the value of \<open>uuid()\<close>.
\<close>

definition buildMemory :: "int \<Rightarrow> string \<Rightarrow> CreateMemoryInput \<Rightarrow> Memory" where
  "buildMemory now uid input =
     \<lparr> mem_id = uid, content = in_content input, summary = in_summary input,
       attribution = \<lparr> atype = in_type input, actor = in_actor input,
                       acontext = in_context input, timestamp = now \<rparr>,
       confidence = computeInitialConfidence input,
       entities = (case in_entities input of Some es \<Rightarrow> es | None \<Rightarrow> []),
       tags = (case in_tags input of Some ts \<Rightarrow> ts | None \<Rightarrow> []),
       category = in_category input, created = now, updated = now,
       lastAccessed = now, accessCount = 0,
       decayRate = (case in_decayRate input of Some d \<Rightarrow> d
                    | None \<Rightarrow> CATEGORY_DEFAULT_DECAY (in_category input)),
       relevanceScore = 1,
       pinned = (case in_pinned input of Some p \<Rightarrow> p | None \<Rightarrow> False) \<rparr>"

text \<open>
  \<open>INSERT INTO memories\<close> with the fields of the memory object (the entity list is
  not a column, the embedding is left \<open>NULL\<close>); it throws on a duplicate primary key.
\<close>

definition insertMemory :: "Memory \<Rightarrow> Store \<Rightarrow> error + Store" where
  "insertMemory m s =
     (if getRow s (mem_id m) \<noteq> None then Inl SQLITE_CONSTRAINT_PRIMARYKEY
      else Inr (s\<lparr> memories := memories s @
                  [\<lparr> row_id = mem_id m, row_content = content m, row_summary = summary m,
                     row_attribution = attribution m, row_confidence = confidence m,
                     row_category = category m, row_tags = tags m,
                     row_created = created m, row_updated = updated m,
                     last_accessed = lastAccessed m, access_count = accessCount m,
                     decay_rate = decayRate m, relevance_score = relevanceScore m,
                     row_pinned = pinned m, embedding = None \<rparr>] \<rparr>))"

text \<open>The links are made after the insert, and only for a non-empty entity list.\<close>

definition createMemory :: "int \<Rightarrow> string \<Rightarrow> CreateMemoryInput \<Rightarrow> Store \<Rightarrow> error + (Memory \<times> Store)" where
  "createMemory now uid input s =
     (let m = buildMemory now uid input
      in case insertMemory m s of
           Inl e \<Rightarrow> Inl e
         | Inr s1 \<Rightarrow>
             (case in_entities input of
                None \<Rightarrow> Inr (m, s1)
              | Some es \<Rightarrow>
                  if es \<noteq> []
                  then (case linkEntities now (mem_id m) es s1 of
                          Inl e \<Rightarrow> Inl e
                        | Inr s2 \<Rightarrow> Inr (m, s2))
                  else Inr (m, s1)))"

text \<open>The row is read first; the access tracking is then updated in the table.\<close>

definition getMemory :: "int \<Rightarrow> string \<Rightarrow> Store \<Rightarrow> Memory option \<times> Store" where
  "getMemory now i s =
     (case getRow s i of
        None \<Rightarrow> (None, s)
      | Some row \<Rightarrow>
          (Some (rowToMemory s row),
           s\<lparr> memories :=
                map (\<lambda>r. if row_id r = i
                          then r\<lparr> last_accessed := now, access_count := access_count r + 1 \<rparr>
                          else r) (memories s) \<rparr>))"

record MemoryUpdates =
  up_content :: "string option"
  up_summary :: "string option"
  up_tags :: "string list option"
  up_category :: "MemoryCategory option"
  up_pinned :: "bool option"
  up_decayRate :: "real option"

definition applyUpdates :: "int \<Rightarrow> MemoryUpdates \<Rightarrow> MemoryRow \<Rightarrow> MemoryRow" where
  "applyUpdates now u r =
     r\<lparr> row_updated := now,
        row_content := (case up_content u of Some c \<Rightarrow> c | None \<Rightarrow> row_content r),
        row_summary := (case up_summary u of Some c \<Rightarrow> Some c | None \<Rightarrow> row_summary r),
        row_tags := (case up_tags u of Some t \<Rightarrow> t | None \<Rightarrow> row_tags r),
        row_category := (case up_category u of Some c \<Rightarrow> c | None \<Rightarrow> row_category r),
        row_pinned := (case up_pinned u of Some p \<Rightarrow> p | None \<Rightarrow> row_pinned r),
        decay_rate := (case up_decayRate u of Some d \<Rightarrow> d | None \<Rightarrow> decay_rate r) \<rparr>"

definition updateMemory :: "int \<Rightarrow> string \<Rightarrow> MemoryUpdates \<Rightarrow> Store \<Rightarrow> Memory option \<times> Store" where
  "updateMemory now i u s =
     (case getMemory now i s of
        (None, s1) \<Rightarrow> (None, s1)
      | (Some existing, s1) \<Rightarrow>
          getMemory now i
            (s1\<lparr> memories := map (\<lambda>r. if row_id r = i then applyUpdates now u r else r)
                                 (memories s1) \<rparr>))"

subsection \<open>applyDecay\<close>

definition ONE_DAY :: real where
  "ONE_DAY = 86400000"

text \<open>The value the loop body computes for one selected row.\<close>

definition clampedRelevance :: "int \<Rightarrow> MemoryRow \<Rightarrow> real" where
  "clampedRelevance now mem =
     (let daysSinceAccess = real_of_int (now - last_accessed mem) / ONE_DAY;
          newRelevance = exp (- decay_rate mem * daysSinceAccess * 0.01)
      in max 0 (min 1 newRelevance))"

text \<open>\<open>UPDATE memories SET relevance_score = ? WHERE id = ?\<close>\<close>

definition setRelevance :: "real \<Rightarrow> string \<Rightarrow> Store \<Rightarrow> Store" where
  "setRelevance v i s =
     s\<lparr> memories := map (\<lambda>r. if row_id r = i then r\<lparr> relevance_score := v \<rparr> else r)
                         (memories s) \<rparr>"

text \<open>The loop over the selected rows; the state is the store and the two counters.\<close>

fun decayLoop :: "int \<Rightarrow> MemoryRow list \<Rightarrow> Store \<times> nat \<times> nat \<Rightarrow> Store \<times> nat \<times> nat" where
  "decayLoop now [] acc = acc"
| "decayLoop now (mem # rest) (s, n_updated, n_archived) =
     (let clamped = clampedRelevance now mem
      in if clamped \<noteq> relevance_score mem
         then decayLoop now rest
                (setRelevance clamped (row_id mem) s, n_updated + 1,
                 (if clamped < 0.05 then n_archived + 1 else n_archived))
         else decayLoop now rest (s, n_updated, n_archived))"

text \<open>The select takes the rows with \<open>pinned = 0\<close>; the result is the new store
  and the counters \<open>updated\<close> and \<open>archived\<close>.\<close>

definition applyDecay :: "int \<Rightarrow> Store \<Rightarrow> Store \<times> nat \<times> nat" where
  "applyDecay now s =
     decayLoop now (filter (\<lambda>r. \<not> row_pinned r) (memories s)) (s, 0, 0)"

subsection \<open>Queries\<close>

text \<open>ASCII lower-casing (\<open>toLowerCase\<close>, and the case folding of \<open>LIKE\<close>).\<close>

definition toLowerChar :: "char \<Rightarrow> char" where
  "toLowerChar c =
     (case map_of (zip ''ABCDEFGHIJKLMNOPQRSTUVWXYZ'' ''abcdefghijklmnopqrstuvwxyz'') c of
        Some l \<Rightarrow> l
      | None \<Rightarrow> c)"

definition toLowerCase :: "string \<Rightarrow> string" where
  "toLowerCase s = map toLowerChar s"

text \<open>
  The SQL operator \<open>LIKE\<close>, pattern first: \<open>%\<close> matches any run of characters,
  \<open>_\<close> any one character, every other character itself up to ASCII case.
\<close>

fun like :: "string \<Rightarrow> string \<Rightarrow> bool" where
  "like [] [] = True"
| "like [] (c # cs) = False"
| "like (p # ps) [] = (if p = CHR ''%'' then like ps [] else False)"
| "like (p # ps) (c # cs) =
     (if p = CHR ''%'' then (if like ps (c # cs) then True else like (p # ps) cs)
      else if p = CHR ''_'' \<or> toLowerChar p = toLowerChar c then like ps cs
      else False)"

text \<open>\<open>ORDER BY relevance_score DESC, created DESC\<close> and \<open>ORDER BY created DESC\<close>
  as stable sorts of the table; SQL leaves the order of ties open.\<close>

definition orderByRelevanceCreated :: "MemoryRow list \<Rightarrow> MemoryRow list" where
  "orderByRelevanceCreated rows =
     sort_key (\<lambda>r. - relevance_score r) (sort_key (\<lambda>r. - row_created r) rows)"

definition orderByCreated :: "MemoryRow list \<Rightarrow> MemoryRow list" where
  "orderByCreated rows = sort_key (\<lambda>r. - row_created r) rows"

text \<open>A \<open>NULL\<close> summary never matches. Limits are natural numbers.\<close>

definition searchByText :: "string \<Rightarrow> nat \<Rightarrow> Store \<Rightarrow> Memory list" where
  "searchByText text limit s =
     (let pat = ''%'' @ text @ ''%''
      in map (rowToMemory s)
           (take limit (orderByRelevanceCreated
              (filter (\<lambda>r. like pat (row_content r)
                          \<or> (case row_summary r of None \<Rightarrow> False | Some sm \<Rightarrow> like pat sm))
                      (memories s)))))"

definition searchByCategory :: "MemoryCategory \<Rightarrow> nat \<Rightarrow> Store \<Rightarrow> Memory list" where
  "searchByCategory cat limit s =
     map (rowToMemory s)
       (take limit (orderByRelevanceCreated
          (filter (\<lambda>r. row_category r = cat) (memories s))))"

definition getEntityMemories :: "string \<Rightarrow> nat \<Rightarrow> Store \<Rightarrow> Memory list" where
  "getEntityMemories entityId limit s =
     map (rowToMemory s)
       (take limit (orderByRelevanceCreated
          (filter (\<lambda>r. (row_id r, entityId) \<in> set (memory_entities s)) (memories s))))"

definition getAllMemories :: "nat \<Rightarrow> Store \<Rightarrow> Memory list" where
  "getAllMemories limit s = map (rowToMemory s) (take limit (orderByCreated (memories s)))"

text \<open>
  Modelled from the spec: \<open>getAllEmbeddings\<close>, the store operation \<open>allEmbeddings()\<close>
  of the external interfaces, is called by recall but is not in the storage layer
  under study. It lists the identifier and the stored vector of every fact that has
  one.
\<close>

definition getAllEmbeddings :: "Store \<Rightarrow> (string \<times> real list) list" where
  "getAllEmbeddings s =
     concat (map (\<lambda>r. case embedding r of None \<Rightarrow> [] | Some v \<Rightarrow> [(row_id r, v)])
                 (memories s))"

section \<open>More JavaScript helpers\<close>

definition isSpace :: "char \<Rightarrow> bool" where
  "isSpace c = (c = CHR '' '' \<or> (9 \<le> (of_char c :: nat) \<and> (of_char c :: nat) \<le> 13))"

text \<open>
  \<open>s.split(/\s+/)\<close>: the pieces between the maximal runs of white space, an empty
  piece before a leading run and after a trailing one. The first argument is the
  piece being read, reversed.
\<close>

function split_ws :: "string \<Rightarrow> string \<Rightarrow> string list" where
  "split_ws acc [] = [rev acc]"
| "split_ws acc (c # cs) =
     (if isSpace c then rev acc # split_ws [] (dropWhile isSpace cs)
      else split_ws (c # acc) cs)"
  by pat_completeness auto
termination
  by (relation "measure (\<lambda>(acc, s). length s)")
     (auto simp: le_imp_less_Suc length_dropWhile_le)

definition split :: "string \<Rightarrow> string list" where
  "split s = split_ws [] s"

text \<open>\<open>s.includes(sub)\<close>\<close>

fun startsWith :: "string \<Rightarrow> string \<Rightarrow> bool" where
  "startsWith s [] = True"
| "startsWith [] (p # ps) = False"
| "startsWith (c # cs) (p # ps) = (if c = p then startsWith cs ps else False)"

fun includes_str :: "string \<Rightarrow> string \<Rightarrow> bool" where
  "includes_str [] sub = (sub = [])"
| "includes_str (c # cs) sub =
     (if startsWith (c # cs) sub then True else includes_str cs sub)"

text \<open>\<open>xs.join(' ')\<close>\<close>

fun join :: "string list \<Rightarrow> string" where
  "join [] = []"
| "join [x] = x"
| "join (x # y # ys) = x @ '' '' @ join (y # ys)"

text \<open>The decimal rendering of an integer in a template literal.\<close>

fun digits :: "nat \<Rightarrow> string" where
  "digits n =
     (if n < 10 then [''0123456789'' ! n]
      else digits (n div 10) @ [''0123456789'' ! (n mod 10)])"

declare digits.simps [simp del]

definition int_str :: "int \<Rightarrow> string" where
  "int_str i = (if i < 0 then ''-'' @ digits (nat (- i)) else digits (nat i))"

section \<open>Corroboration engine (corroborate.ts)\<close>

record CorroborationResult =
  memoryId :: string
  oldConfidence :: real
  newConfidence :: real
  reason :: string

record MemoryRef =
  ref_id :: string
  ref_summary :: string
  ref_confidence :: real

record ContradictionResult =
  memoryA :: MemoryRef
  memoryB :: MemoryRef
  similarity :: real
  c_reason :: string

text \<open>Jaccard similarity of the sets of lower-cased words longer than three characters.\<close>

definition contentSimilarity :: "string \<Rightarrow> string \<Rightarrow> real" where
  "contentSimilarity a b =
     (let wordsA = remdups (filter (\<lambda>w. length w > 3) (split (toLowerCase a)));
          wordsB = remdups (filter (\<lambda>w. length w > 3) (split (toLowerCase b)));
          intersection = length (filter (\<lambda>w. w \<in> set wordsB) wordsA);
          union_size = int (length wordsA) + int (length wordsB) - int intersection
      in if union_size = 0 then 0 else real intersection / real_of_int union_size)"

text \<open>\<open>UPDATE memories SET confidence = ?, updated = ? WHERE id = ?\<close>\<close>

definition updateConfidence :: "int \<Rightarrow> string \<Rightarrow> Confidence \<Rightarrow> Store \<Rightarrow> Store" where
  "updateConfidence now i conf s =
     s\<lparr> memories := map (\<lambda>r. if row_id r = i
                                then r\<lparr> row_confidence := conf, row_updated := now \<rparr> else r)
                         (memories s) \<rparr>"

text \<open>Adding the rows of one query to the candidates, skipping known identifiers.\<close>

fun addCandidates :: "Memory list \<Rightarrow> Memory list \<Rightarrow> Memory list" where
  "addCandidates candidates [] = candidates"
| "addCandidates candidates (m # ms) =
     (if find (\<lambda>c. mem_id c = mem_id m) candidates = None
      then addCandidates (candidates @ [m]) ms
      else addCandidates candidates ms)"

definition findRelated :: "Memory \<Rightarrow> Store \<Rightarrow> Memory list" where
  "findRelated memory s =
     (let byEntity = fold (\<lambda>entityId candidates.
                             addCandidates candidates (getEntityMemories entityId 20 s))
                          (entities memory) [];
          keywords = join (take 3 (filter (\<lambda>w. length w > 4) (split (content memory))))
      in if keywords \<noteq> [] then addCandidates byEntity (searchByText keywords 10 s)
         else byEntity)"

definition isIndependentSource :: "Memory \<Rightarrow> Memory \<Rightarrow> bool" where
  "isIndependentSource a b =
     (if atype (attribution a) \<noteq> atype (attribution b) then True
      else if truthy (actor (attribution a)) \<and> truthy (actor (attribution b))
              \<and> actor (attribution a) \<noteq> actor (attribution b) then True
      else if truthy (acontext (attribution a)) \<and> truthy (acontext (attribution b))
              \<and> acontext (attribution a) \<noteq> acontext (attribution b) then True
      else False)"

fun sourceWeights :: "SourceType \<Rightarrow> real" where
  "sourceWeights Experienced = 1.5"
| "sourceWeights Observed = 1.2"
| "sourceWeights Told = 1.0"
| "sourceWeights Read = 0.8"
| "sourceWeights Inferred = 0.5"

definition calculateBoost :: "real \<Rightarrow> Memory \<Rightarrow> Memory \<Rightarrow> real" where
  "calculateBoost sim newMem existingMem =
     (let boost0 = sim * 0.1;
          boost1 = boost0 * sourceWeights (atype (attribution newMem));
          existing = corroborations (confidence existingMem);
          boost2 = (if existing > 0 then boost1 * (1 / (1 + real existing * 0.3)) else boost1)
      in round2 boost2)"

subsection \<open>checkCorroboration\<close>

fun corroborationLoop ::
  "int \<Rightarrow> Memory \<Rightarrow> Memory list \<Rightarrow> Store \<times> CorroborationResult list
     \<Rightarrow> Store \<times> CorroborationResult list" where
  "corroborationLoop now newMemory [] acc = acc"
| "corroborationLoop now newMemory (existing # rest) (s, results) =
     (if mem_id existing = mem_id newMemory then corroborationLoop now newMemory rest (s, results)
      else if isIndependentSource newMemory existing
              \<and> contentSimilarity (content newMemory) (content existing) > 0.5
      then (let sim = contentSimilarity (content newMemory) (content existing);
                boost = calculateBoost sim newMemory existing;
                oldScore = score (confidence existing);
                newScore = min 1 (oldScore + boost);
                conf = (confidence existing)
                  \<lparr> score := round2 newScore,
                    corroborations := corroborations (confidence existing) + 1,
                    lastVerified := Some now,
                    basis := basis (confidence existing) @
                      [''+'' @ int_str (Math_round (boost * 100)) @ ''% corroborated by ''
                         @ SourceType_str (atype (attribution newMemory)) @ '' source''] \<rparr>
            in corroborationLoop now newMemory rest
                 (updateConfidence now (mem_id existing) conf s,
                  results @
                    [\<lparr> memoryId = mem_id existing, oldConfidence = oldScore,
                       newConfidence = newScore,
                       reason = ''Corroborated by new ''
                         @ SourceType_str (atype (attribution newMemory))
                         @ '' memory (similarity: '' @ int_str (Math_round (sim * 100))
                         @ ''%)'' \<rparr>]))
      else corroborationLoop now newMemory rest (s, results))"

definition checkCorroboration :: "int \<Rightarrow> Memory \<Rightarrow> Store \<Rightarrow> CorroborationResult list \<times> Store" where
  "checkCorroboration now newMemory s =
     (case corroborationLoop now newMemory (findRelated newMemory s) (s, []) of
        (s', results) \<Rightarrow> (results, s'))"

subsection \<open>findContradictions\<close>

definition negationPairs :: "(string \<times> string) list" where
  "negationPairs =
     [(''is'', ''isn'' @ [CHR 0x27] @ ''t''), (''is'', ''is not''),
      (''can'', ''can'' @ [CHR 0x27] @ ''t''), (''can'', ''cannot''),
      (''does'', ''doesn'' @ [CHR 0x27] @ ''t''), (''does'', ''does not''),
      (''should'', ''shouldn'' @ [CHR 0x27] @ ''t''), (''should'', ''should not''),
      (''works'', ''doesn'' @ [CHR 0x27] @ ''t work''), (''working'', ''not working''),
      (''true'', ''false''), (''yes'', ''no''),
      (''enabled'', ''disabled'')]"

text \<open>The first pair of the table that fires, if the two texts are similar enough.\<close>

definition detectContradiction :: "Memory \<Rightarrow> Memory \<Rightarrow> string option" where
  "detectContradiction a b =
     (let aLower = toLowerCase (content a);
          bLower = toLowerCase (content b)
      in case find (\<lambda>pn. ((includes_str aLower (fst pn) \<and> includes_str bLower (snd pn))
                            \<or> (includes_str aLower (snd pn) \<and> includes_str bLower (fst pn)))
                           \<and> contentSimilarity aLower bLower > 0.3) negationPairs of
           None \<Rightarrow> None
         | Some pn \<Rightarrow> Some (''Potential negation: '' @ [CHR 0x22] @ fst pn @ [CHR 0x22]
                             @ '' vs '' @ [CHR 0x22] @ snd pn @ [CHR 0x22]
                             @ '' in related memories''))"

text \<open>The warning sign that opens the rationale entry, as UTF-8 bytes.\<close>

definition warning_sign :: string where
  "warning_sign = [CHR 0xE2, CHR 0x9A, CHR 0xA0, CHR 0xEF, CHR 0xB8, CHR 0x8F]"

definition memoryRef :: "Memory \<Rightarrow> MemoryRef" where
  "memoryRef m =
     \<lparr> ref_id = mem_id m,
       ref_summary = (case summary m of Some sm \<Rightarrow> sm | None \<Rightarrow> take 60 (content m)),
       ref_confidence = score (confidence m) \<rparr>"

definition markContradiction :: "int \<Rightarrow> Memory \<Rightarrow> Memory \<Rightarrow> Store \<Rightarrow> Store" where
  "markContradiction now a b s =
     updateConfidence now (mem_id a)
       ((confidence a)
          \<lparr> contradictions := contradictions (confidence a) + 1,
            basis := basis (confidence a) @
              [warning_sign @ '' Potential contradiction with memory '' @ take 8 (mem_id b)] \<rparr>) s"

text \<open>The inner loop, over the memories after \<open>a\<close>; it does not look at the limit.\<close>

fun contradictionInner ::
  "int \<Rightarrow> Memory \<Rightarrow> Memory list \<Rightarrow> Store \<times> ContradictionResult list
     \<Rightarrow> Store \<times> ContradictionResult list" where
  "contradictionInner now a [] acc = acc"
| "contradictionInner now a (b # rest) (s, found) =
     (if filter (\<lambda>e. e \<in> set (entities b)) (entities a) = []
      then contradictionInner now a rest (s, found)
      else if category a \<noteq> category b then contradictionInner now a rest (s, found)
      else (case detectContradiction a b of
              None \<Rightarrow> contradictionInner now a rest (s, found)
            | Some contradiction \<Rightarrow>
                contradictionInner now a rest
                  (markContradiction now b a (markContradiction now a b s),
                   found @
                     [\<lparr> memoryA = memoryRef a, memoryB = memoryRef b,
                        similarity = contentSimilarity (content a) (content b),
                        c_reason = contradiction \<rparr>])))"

text \<open>The outer loop runs while \<open>contradictions.length < limit\<close>.\<close>

fun contradictionOuter ::
  "int \<Rightarrow> nat \<Rightarrow> Memory list \<Rightarrow> Store \<times> ContradictionResult list
     \<Rightarrow> Store \<times> ContradictionResult list" where
  "contradictionOuter now limit [] acc = acc"
| "contradictionOuter now limit (a # rest) (s, found) =
     (if length found < limit
      then contradictionOuter now limit rest (contradictionInner now a rest (s, found))
      else (s, found))"

definition findContradictions :: "int \<Rightarrow> nat \<Rightarrow> Store \<Rightarrow> ContradictionResult list \<times> Store" where
  "findContradictions now limit s =
     (case contradictionOuter now limit (getAllMemories 200 s) (s, []) of
        (s', found) \<Rightarrow> (found, s'))"

subsection \<open>verifyMemory\<close>

record VerifyResult =
  verified :: bool
  evidence :: "string list"
  v_newConfidence :: real

text \<open>The em dash of the evidence line, as UTF-8 bytes.\<close>

definition em_dash :: string where
  "em_dash = [CHR 0xE2, CHR 0x80, CHR 0x94]"

fun verifyLoop ::
  "string \<Rightarrow> Memory \<Rightarrow> Memory list \<Rightarrow> nat \<times> string list \<Rightarrow> nat \<times> string list" where
  "verifyLoop i memory [] acc = acc"
| "verifyLoop i memory (rel # rest) (n_corroborations, ev) =
     (if mem_id rel = i then verifyLoop i memory rest (n_corroborations, ev)
      else if contentSimilarity (content memory) (content rel) > 0.4
      then verifyLoop i memory rest
             (n_corroborations + 1,
              ev @ [''Supported by '' @ SourceType_str (atype (attribution rel)) @ '' memory''
                    @ (if truthy (actor (attribution rel))
                       then '' (via '' @ the (actor (attribution rel)) @ '')'' else [])
                    @ '' '' @ em_dash @ '' ''
                    @ int_str (Math_round (contentSimilarity (content memory) (content rel) * 100))
                    @ ''% similar''])
      else verifyLoop i memory rest (n_corroborations, ev))"

definition verifyMemory :: "int \<Rightarrow> string \<Rightarrow> Store \<Rightarrow> VerifyResult \<times> Store" where
  "verifyMemory now i s =
     (case getMemory now i s of
        (None, s1) \<Rightarrow>
          (\<lparr> verified = False, evidence = [''Memory not found''], v_newConfidence = 0 \<rparr>, s1)
      | (Some memory, s1) \<Rightarrow>
          (case verifyLoop i memory (findRelated memory s1) (0, []) of
             (n_corroborations, ev) \<Rightarrow>
               (let newConf = (if n_corroborations > 0
                               then min 1 (score (confidence memory)
                                           + real n_corroborations * 0.05)
                               else score (confidence memory));
                    s2 = (if n_corroborations > 0
                          then updateConfidence now i
                                 ((confidence memory)
                                    \<lparr> score := round2 newConf,
                                      corroborations := corroborations (confidence memory)
                                                        + n_corroborations,
                                      lastVerified := Some now \<rparr>) s1
                          else s1)
                in (\<lparr> verified = (n_corroborations > 0),
                      evidence = (if ev \<noteq> [] then ev
                                  else [''No corroborating evidence found'']),
                      v_newConfidence = round2 newConf \<rparr>, s2))))"

section \<open>Recall engine (recall.ts)\<close>

record RecallQuery =
  q_text :: string
  q_context :: "string option"
  q_entities :: "string list option"
  q_categories :: "MemoryCategory list option"
  minConfidence :: "real option"
  minRelevance :: "real option"
  q_limit :: "nat option"
  includeDecayed :: "bool option"

record Scores =
  s_text :: real
  s_semantic :: real
  s_entity :: real

record RecallResult =
  memory :: Memory
  matchScore :: real
  finalScore :: real

text \<open>
  The candidate map is a JavaScript \<open>Map\<close>: an association list in insertion order,
  where setting a known key replaces its value in place.
\<close>

type_synonym CandidateMap = "(string \<times> Memory \<times> Scores) list"

definition map_has :: "CandidateMap \<Rightarrow> string \<Rightarrow> bool" where
  "map_has cm k = (find (\<lambda>e. fst e = k) cm \<noteq> None)"

definition map_set :: "string \<Rightarrow> Memory \<times> Scores \<Rightarrow> CandidateMap \<Rightarrow> CandidateMap" where
  "map_set k v cm =
     (if map_has cm k then map (\<lambda>e. if fst e = k then (k, v) else e) cm else cm @ [(k, v)])"

definition zeroScores :: Scores where
  "zeroScores = \<lparr> s_text = 0, s_semantic = 0, s_entity = 0 \<rparr>"

subsection \<open>Internal scoring\<close>

definition textMatchScore :: "string \<Rightarrow> Memory \<Rightarrow> real" where
  "textMatchScore query mem =
     (let queryLower = toLowerCase query;
          contentLower = toLowerCase (content mem);
          summaryLower = toLowerCase (case summary mem of Some sm \<Rightarrow> sm | None \<Rightarrow> []);
          queryTerms = filter (\<lambda>t. length t > 2) (split queryLower)
      in if queryTerms = [] then 0
         else (let matches0 =
                     fold (\<lambda>term m. (if includes_str contentLower term then m + 1 else m)
                                     + (if includes_str summaryLower term then 0.5 else 0))
                          queryTerms 0;
                   matches = (if includes_str contentLower queryLower
                              then matches0 + real (length queryTerms) else matches0)
               in min 1 (matches / (real (length queryTerms) * 2))))"

definition computeMatchScore :: "Scores \<Rightarrow> real" where
  "computeMatchScore scores =
     (if s_semantic scores > 0
      then s_semantic scores * 0.5 + s_text scores * 0.3 + s_entity scores * 0.2
      else s_text scores * 0.7 + s_entity scores * 0.3)"

definition contextBoost :: "string \<Rightarrow> Memory \<Rightarrow> real" where
  "contextBoost ctx mem =
     (let contextLower = toLowerCase ctx;
          memContext = toLowerCase (case acontext (attribution mem) of
                                      Some c \<Rightarrow> c | None \<Rightarrow> [])
      in if memContext = [] then 1.0
         else (let contextTerms = filter (\<lambda>t. length t > 3) (split contextLower);
                   overlap = length (filter (\<lambda>term. includes_str memContext term) contextTerms)
               in 1.0 + (real overlap / real (max (length contextTerms) 1)) * 0.3))"

definition cosineSimilarity :: "real list \<Rightarrow> real list \<Rightarrow> real" where
  "cosineSimilarity a b =
     (if length a \<noteq> length b then 0
      else (let dot = sum_list (map2 (*) a b);
                normA = sum_list (map2 (*) a a);
                normB = sum_list (map2 (*) b b);
                denom = sqrt normA * sqrt normB
            in if denom = 0 then 0 else dot / denom))"

subsection \<open>recall: gathering the candidates\<close>

definition textCandidates :: "string \<Rightarrow> Memory list \<Rightarrow> CandidateMap \<Rightarrow> CandidateMap" where
  "textCandidates text textResults cm =
     fold (\<lambda>mem m. map_set (mem_id mem)
                      (mem, \<lparr> s_text = textMatchScore text mem, s_semantic = 0, s_entity = 0 \<rparr>) m)
          textResults cm"

definition entityCandidates :: "Memory list \<Rightarrow> CandidateMap \<Rightarrow> CandidateMap" where
  "entityCandidates entityMems cm =
     fold (\<lambda>mem m.
             (let m1 = (if \<not> map_has m (mem_id mem)
                        then map_set (mem_id mem) (mem, zeroScores) m else m)
              in map (\<lambda>e. if fst e = mem_id mem
                           then (fst e, fst (snd e), (snd (snd e))\<lparr> s_entity := 1.0 \<rparr>)
                           else e) m1))
          entityMems cm"

definition categoryCandidates :: "Memory list \<Rightarrow> CandidateMap \<Rightarrow> CandidateMap" where
  "categoryCandidates catMems cm =
     fold (\<lambda>mem m. if \<not> map_has m (mem_id mem)
                    then map_set (mem_id mem) (mem, zeroScores) m else m)
          catMems cm"

text \<open>
  The semantic channel. A vector close enough to the query either sets the semantic
  score of a known candidate or fetches the memory with \<open>getMemory\<close>, which
  updates the access tracking of the row.
\<close>

fun semanticCandidates ::
  "int \<Rightarrow> real list \<Rightarrow> (string \<times> real list) list \<Rightarrow> CandidateMap \<times> Store
     \<Rightarrow> CandidateMap \<times> Store" where
  "semanticCandidates now queryEmbedding [] acc = acc"
| "semanticCandidates now queryEmbedding ((i, emb) # rest) (cm, s) =
     (let sim = cosineSimilarity queryEmbedding emb
      in if sim > 0.5
         then (if \<not> map_has cm i
               then (case getMemory now i s of
                       (Some mem, s') \<Rightarrow>
                         semanticCandidates now queryEmbedding rest
                           (map_set i (mem, \<lparr> s_text = 0, s_semantic = sim, s_entity = 0 \<rparr>) cm, s')
                     | (None, s') \<Rightarrow> semanticCandidates now queryEmbedding rest (cm, s'))
               else semanticCandidates now queryEmbedding rest
                      (map (\<lambda>e. if fst e = i
                                 then (fst e, fst (snd e), (snd (snd e))\<lparr> s_semantic := sim \<rparr>)
                                 else e) cm, s))
         else semanticCandidates now queryEmbedding rest (cm, s))"

subsection \<open>recall: scoring, filtering, ranking\<close>

definition queryLimit :: "RecallQuery \<Rightarrow> nat" where
  "queryLimit query = (case q_limit query of Some l \<Rightarrow> l | None \<Rightarrow> 10)"

definition queryMinConfidence :: "RecallQuery \<Rightarrow> real" where
  "queryMinConfidence query = (case minConfidence query of Some c \<Rightarrow> c | None \<Rightarrow> 0.3)"

definition queryMinRelevance :: "RecallQuery \<Rightarrow> real" where
  "queryMinRelevance query = (case minRelevance query of Some c \<Rightarrow> c | None \<Rightarrow> 0.1)"

definition queryIncludeDecayed :: "RecallQuery \<Rightarrow> bool" where
  "queryIncludeDecayed query = (case includeDecayed query of Some b \<Rightarrow> b | None \<Rightarrow> False)"

fun scoreCandidates :: "RecallQuery \<Rightarrow> CandidateMap \<Rightarrow> RecallResult list" where
  "scoreCandidates query [] = []"
| "scoreCandidates query ((i, mem, scores) # rest) =
     (if score (confidence mem) < queryMinConfidence query then scoreCandidates query rest
      else if relevanceScore mem < queryMinRelevance query \<and> \<not> queryIncludeDecayed query
      then scoreCandidates query rest
      else (let ms = computeMatchScore scores;
                fs = ms * score (confidence mem) * relevanceScore mem;
                boost = (if truthy (q_context query)
                         then contextBoost (the (q_context query)) mem else 1.0)
            in \<lparr> memory = mem, matchScore = ms, finalScore = fs * boost \<rparr>
               # scoreCandidates query rest))"

definition minFinalScore :: real where
  "minFinalScore = 0.15"

text \<open>\<open>sort((a, b) => b.finalScore - a.finalScore)\<close>, a stable sort.\<close>

definition sortByFinalScore :: "RecallResult list \<Rightarrow> RecallResult list" where
  "sortByFinalScore rs = sort_key (\<lambda>r. - finalScore r) rs"

text \<open>
  The embedder is optional; asked for the vector of a text it answers or rejects
  (\<open>None\<close>), and a rejection makes recall throw.
\<close>

definition recall ::
  "(string \<Rightarrow> real list option) option \<Rightarrow> int \<Rightarrow> RecallQuery \<Rightarrow> Store
     \<Rightarrow> error + (RecallResult list \<times> Store)" where
  "recall embedder now query s =
     (let limit = queryLimit query;
          cm1 = textCandidates (q_text query) (searchByText (q_text query) (limit * 3) s) [];
          cm2 = (case q_entities query of
                   None \<Rightarrow> cm1
                 | Some es \<Rightarrow>
                     fold (\<lambda>entityId m. entityCandidates (getEntityMemories entityId (limit * 2) s) m)
                          es cm1);
          cm3 = (case q_categories query of
                   None \<Rightarrow> cm2
                 | Some cs \<Rightarrow>
                     fold (\<lambda>cat m. categoryCandidates (searchByCategory cat (limit * 2) s) m)
                          cs cm2);
          gathered = (case embedder of
                        None \<Rightarrow> Inr (cm3, s)
                      | Some embedText \<Rightarrow>
                          (case embedText (q_text query) of
                             None \<Rightarrow> Inl EmbedderRejected
                           | Some queryEmbedding \<Rightarrow>
                               Inr (semanticCandidates now queryEmbedding
                                      (getAllEmbeddings s) (cm3, s))))
      in case gathered of
           Inl e \<Rightarrow> Inl e
         | Inr (cm, s') \<Rightarrow>
             Inr (take limit (sortByFinalScore
                    (filter (\<lambda>r. finalScore r \<ge> minFinalScore) (scoreCandidates query cm))),
                  s'))"

subsection \<open>quickRecall\<close>

text \<open>
  The limit of quickRecall is any integer. A negative \<open>LIMIT\<close> is no limit in SQLite:
  the search then returns every matching row, as it does with the size of the table
  for its limit. \<open>xs.slice(0, n)\<close> with a negative \<open>n\<close> leaves out the
  last \<open>-n\<close> elements.
\<close>

definition searchByTextLimit :: "string \<Rightarrow> int \<Rightarrow> Store \<Rightarrow> Memory list" where
  "searchByTextLimit text limit s =
     (if limit < 0 then searchByText text (length (memories s)) s
      else searchByText text (nat limit) s)"

definition slice0 :: "int \<Rightarrow> 'a list \<Rightarrow> 'a list" where
  "slice0 n xs = (if n < 0 then take (length xs - nat (- n)) xs else take (nat n) xs)"

definition quickRecall :: "string \<Rightarrow> int \<Rightarrow> Store \<Rightarrow> RecallResult list" where
  "quickRecall text limit s =
     (let mems = searchByTextLimit text (limit * 3) s;
          results = map (\<lambda>mem. \<lparr> memory = mem, matchScore = textMatchScore text mem,
                                  finalScore = textMatchScore text mem * score (confidence mem)
                                               * relevanceScore mem \<rparr>) mems
      in slice0 limit (sortByFinalScore results))"

section \<open>Sequences of core operations\<close>

text \<open>
  The operations that write to the store, each with the clock reading it sees. A
  \<open>createMemory\<close> that throws on its primary key leaves the store as it was.
\<close>

datatype Op =
    OpCreateMemory int string CreateMemoryInput
  | OpGetMemory int string
  | OpUpdateMemory int string MemoryUpdates
  | OpApplyDecay int
  | OpCheckCorroboration int Memory
  | OpFindContradictions int nat
  | OpVerifyMemory int string

fun step :: "Op \<Rightarrow> Store \<Rightarrow> Store" where
  "step (OpCreateMemory now uid input) s =
     (case createMemory now uid input s of Inl e \<Rightarrow> s | Inr (m, s') \<Rightarrow> s')"
| "step (OpGetMemory now i) s = snd (getMemory now i s)"
| "step (OpUpdateMemory now i u) s = snd (updateMemory now i u s)"
| "step (OpApplyDecay now) s = fst (applyDecay now s)"
| "step (OpCheckCorroboration now newMemory) s = snd (checkCorroboration now newMemory s)"
| "step (OpFindContradictions now limit) s = snd (findContradictions now limit s)"
| "step (OpVerifyMemory now i) s = snd (verifyMemory now i s)"

fun run :: "Op list \<Rightarrow> Store \<Rightarrow> Store" where
  "run [] s = s"
| "run (op # ops) s = run ops (step op s)"

text \<open>An \<open>updateMemory\<close> call that sets the pin.\<close>

fun setsPin :: "Op \<Rightarrow> bool" where
  "setsPin (OpUpdateMemory now i u) = (up_pinned u = Some True)"
| "setsPin op = False"

text \<open>The primary key of \<open>memories\<close>.\<close>

definition uniqueIds :: "Store \<Rightarrow> bool" where
  "uniqueIds s = distinct (map row_id (memories s))"

text \<open>What one sweep does to one row when identifiers are unique.\<close>

definition decayRow :: "int \<Rightarrow> MemoryRow \<Rightarrow> MemoryRow" where
  "decayRow now r =
     (if row_pinned r then r else r\<lparr> relevance_score := clampedRelevance now r \<rparr>)"

section \<open>Invariants and example data\<close>

text \<open>Every pinned row has relevance 1.\<close>

definition pinnedAtFull :: "Store \<Rightarrow> bool" where
  "pinnedAtFull s = (\<forall>r \<in> set (memories s). row_pinned r \<longrightarrow> relevance_score r = 1)"

text \<open>An operation keeps a row when it leaves its identifier and relevance alone
  and does not pin it; it keeps a store when it keeps every row, in order.\<close>

definition rowKept :: "MemoryRow \<Rightarrow> MemoryRow \<Rightarrow> bool" where
  "rowKept r r' = (row_id r' = row_id r \<and> relevance_score r' = relevance_score r
                   \<and> (row_pinned r' \<longrightarrow> row_pinned r))"

definition keeps :: "Store \<Rightarrow> Store \<Rightarrow> bool" where
  "keeps s s' = list_all2 rowKept (memories s) (memories s')"

text \<open>
  The supporting candidates of verifyMemory in the words of its contract: the related
  facts, other than the fact itself, whose content similarity exceeds 0.4.
\<close>

definition supportingCandidates :: "string \<Rightarrow> Memory \<Rightarrow> Store \<Rightarrow> Memory list" where
  "supportingCandidates i mem s =
     filter (\<lambda>rel. mem_id rel \<noteq> i \<and> contentSimilarity (content mem) (content rel) > 0.4)
            (findRelated mem s)"

text \<open>Scores are kept to two decimals: whole numbers of hundredths.\<close>

definition hundredths :: "real \<Rightarrow> bool" where
  "hundredths x = (\<exists>k::int. x = real_of_int k / 100)"

text \<open>A well-formed score, and a store all of whose scores are well formed.\<close>

definition goodScore :: "real \<Rightarrow> bool" where
  "goodScore x = (hundredths x \<and> x \<le> 1)"

definition scoresKept :: "Store \<Rightarrow> bool" where
  "scoresKept s = (\<forall>r \<in> set (memories s). goodScore (score (row_confidence r)))"

text \<open>Rows and inputs for the concrete runs below.\<close>

definition decayExampleRow :: "string \<Rightarrow> nat \<Rightarrow> MemoryRow" where
  "decayExampleRow i n =
     \<lparr> row_id = i, row_content = ''Accessed'', row_summary = None,
       row_attribution = \<lparr> atype = Experienced, actor = None, acontext = None, timestamp = 0 \<rparr>,
       row_confidence = \<lparr> score = 0.9, basis = [''experienced source (base: 0.9)''],
                          lastVerified = None, corroborations = 0, contradictions = 0 \<rparr>,
       row_category = Event, row_tags = [], row_created = 0, row_updated = 0,
       last_accessed = 0, access_count = n, decay_rate = 0.3, relevance_score = 1,
       row_pinned = False, embedding = None \<rparr>"

definition decayExampleStore :: Store where
  "decayExampleStore =
     \<lparr> memories = [decayExampleRow ''frequent'' 20, decayExampleRow ''rare'' 0],
       entity_table = [], memory_entities = [] \<rparr>"

definition exampleInput :: CreateMemoryInput where
  "exampleInput =
     \<lparr> in_content = ''the deploy key rotates'', in_summary = None, in_type = Experienced,
       in_actor = None, in_context = None, in_entities = None, in_tags = None,
       in_category = Fact, in_decayRate = None, in_pinned = None \<rparr>"

definition noUpdates :: MemoryUpdates where
  "noUpdates = \<lparr> up_content = None, up_summary = None, up_tags = None, up_category = None,
                 up_pinned = None, up_decayRate = None \<rparr>"

text \<open>Three facts about one entity, the first contradicted by the other two.\<close>

definition serviceRow :: "string \<Rightarrow> string \<Rightarrow> int \<Rightarrow> MemoryRow" where
  "serviceRow i text t =
     \<lparr> row_id = i, row_content = text, row_summary = None,
       row_attribution = \<lparr> atype = Observed, actor = None, acontext = None, timestamp = t \<rparr>,
       row_confidence = \<lparr> score = 0.8, basis = [''observed source (base: 0.8)''],
                          lastVerified = None, corroborations = 0, contradictions = 0 \<rparr>,
       row_category = Fact, row_tags = [], row_created = t, row_updated = t,
       last_accessed = t, access_count = 0, decay_rate = 0.1, relevance_score = 1,
       row_pinned = False, embedding = None \<rparr>"

definition serviceStore :: Store where
  "serviceStore =
     \<lparr> memories = [serviceRow ''c'' ''backup is not enabled'' 1,
                   serviceRow ''b'' ''backup is not enabled'' 2,
                   serviceRow ''a'' ''backup is enabled'' 3],
       entity_table = [\<lparr> ent_id = ''backup'', name = ''backup'', etype = Concept,
                         description = None, aliases = [], metadata = [],
                         ent_created = 1, ent_updated = 1, memoryCount = 3 \<rparr>],
       memory_entities = [(''c'', ''backup''), (''b'', ''backup''), (''a'', ''backup'')] \<rparr>"

text \<open>A fact read long ago, its relevance decayed to 0.05.\<close>

definition staleRow :: MemoryRow where
  "staleRow =
     \<lparr> row_id = ''m1'', row_content = ''credential stealer'', row_summary = None,
       row_attribution = \<lparr> atype = Read, actor = Some ''rufio'', acontext = Some ''post'',
                           timestamp = 0 \<rparr>,
       row_confidence = \<lparr> score = 0.55,
                          basis = [''read source (base: 0.5)'', ''from: rufio'', ''has source context''],
                          lastVerified = None, corroborations = 0, contradictions = 0 \<rparr>,
       row_category = Event, row_tags = [], row_created = 0, row_updated = 0,
       last_accessed = 0, access_count = 0, decay_rate = 0.3, relevance_score = 0.05,
       row_pinned = False, embedding = Some [1] \<rparr>"

definition staleStore :: Store where
  "staleStore = \<lparr> memories = [staleRow], entity_table = [], memory_entities = [] \<rparr>"

text \<open>The same fact at full relevance, a query with every option left out, and an
  embedder that answers every text with one vector.\<close>

definition recallRow :: MemoryRow where
  "recallRow = staleRow\<lparr> relevance_score := 1 \<rparr>"

definition recallStore :: Store where
  "recallStore = \<lparr> memories = [recallRow], entity_table = [], memory_entities = [] \<rparr>"

definition plainQuery :: "string \<Rightarrow> RecallQuery" where
  "plainQuery text =
     \<lparr> q_text = text, q_context = None, q_entities = None, q_categories = None,
       minConfidence = None, minRelevance = None, q_limit = None, includeDecayed = None \<rparr>"

definition constEmbedder :: "real list \<Rightarrow> string \<Rightarrow> real list option" where
  "constEmbedder v text = Some v"

text \<open>Two facts that match the same query: the first has the higher relevance and
  comes first in the search, the second has the higher product of score and relevance.\<close>

definition credentialRow :: "string \<Rightarrow> real \<Rightarrow> real \<Rightarrow> MemoryRow" where
  "credentialRow i sc rel =
     staleRow\<lparr> row_id := i, row_confidence := (row_confidence staleRow)\<lparr> score := sc \<rparr>,
               relevance_score := rel \<rparr>"

definition rankStore :: Store where
  "rankStore = \<lparr> memories = [credentialRow ''A'' 0.4 1, credentialRow ''B'' 0.95 0.9],
                 entity_table = [], memory_entities = [] \<rparr>"

text \<open>
  The identifiers that recall has gathered when its semantic channel starts: the hits
  of the text search and, when the query names entities or categories, the hits of the
  entity and category queries. The semantic channel fetches a row with
  \<open>getMemory\<close> when the stored vector of the row is close enough to the
  query vector and the identifier of the row is not among them.
\<close>

definition gatheredIds :: "RecallQuery \<Rightarrow> Store \<Rightarrow> string list" where
  "gatheredIds query s =
     map mem_id (searchByText (q_text query) (queryLimit query * 3) s)
     @ (case q_entities query of
          None \<Rightarrow> []
        | Some es \<Rightarrow>
            concat (map (\<lambda>e. map mem_id (getEntityMemories e (queryLimit query * 2) s)) es))
     @ (case q_categories query of
          None \<Rightarrow> []
        | Some cs \<Rightarrow>
            concat (map (\<lambda>c. map mem_id (searchByCategory c (queryLimit query * 2) s)) cs))"

definition fetched :: "real list \<Rightarrow> RecallQuery \<Rightarrow> Store \<Rightarrow> MemoryRow \<Rightarrow> bool" where
  "fetched queryEmbedding query s r =
     (case embedding r of
        None \<Rightarrow> False
      | Some v \<Rightarrow> cosineSimilarity queryEmbedding v > 0.5
                  \<and> row_id r \<notin> set (gatheredIds query s))"

text \<open>A store of four facts for the same query: a text hit with a close vector, and
  three facts without the query word, with a close vector, a far vector and no vector.\<close>

definition otherRow :: "string \<Rightarrow> real list option \<Rightarrow> MemoryRow" where
  "otherRow i v = recallRow\<lparr> row_id := i, row_content := ''release notes'', embedding := v \<rparr>"

definition semanticStore :: Store where
  "semanticStore =
     \<lparr> memories = [recallRow, otherRow ''m2'' (Some [1]), otherRow ''m3'' (Some [- 1]),
                   otherRow ''m4'' None],
       entity_table = [], memory_entities = [] \<rparr>"

section \<open>Properties\<close>

subsection \<open>The decay sweep, row by row\<close>

lemma row_id_inj:
  "distinct (map row_id xs) \<Longrightarrow> x \<in> set xs \<Longrightarrow> y \<in> set xs \<Longrightarrow> row_id x = row_id y \<Longrightarrow> x = y"
  by (meson distinct_map inj_onD)

lemma setRelevance_memories:
  "memories (setRelevance v i s) = map (\<lambda>r. if row_id r = i then r\<lparr> relevance_score := v \<rparr> else r) (memories s)"
  by (simp add: setRelevance_def)

lemma setRelevance_ids:
  "map row_id (memories (setRelevance v i s)) = map row_id (memories s)"
  by (simp add: setRelevance_def comp_def cong: map_cong)

lemma decayLoop_memories:
  "distinct (map row_id (memories s)) \<Longrightarrow> set sel \<subseteq> set (memories s) \<Longrightarrow> distinct sel \<Longrightarrow>
   memories (fst (decayLoop now sel (s, u, a))) =
     map (\<lambda>r. if r \<in> set sel then r\<lparr> relevance_score := clampedRelevance now r \<rparr> else r) (memories s)"
proof (induction sel arbitrary: s u a)
  case Nil
  then show ?case by simp
next
  case (Cons m sel)
  let ?c = "clampedRelevance now m"
  have m_in: "m \<in> set (memories s)" and sel_in: "set sel \<subseteq> set (memories s)"
    and m_notin: "m \<notin> set sel" and dsel: "distinct sel"
    using Cons.prems by auto
  have id_m: "\<And>r. r \<in> set (memories s) \<Longrightarrow> (row_id r = row_id m) = (r = m)"
    using row_id_inj [OF Cons.prems(1) _ m_in] by blast
  show ?case
  proof (cases "?c = relevance_score m")
    case True
    have "memories (fst (decayLoop now (m # sel) (s, u, a))) =
          memories (fst (decayLoop now sel (s, u, a)))"
      using True by simp
    also have "\<dots> = map (\<lambda>r. if r \<in> set sel then r\<lparr> relevance_score := clampedRelevance now r \<rparr> else r) (memories s)"
      by (rule Cons.IH [OF Cons.prems(1) sel_in dsel])
    also have "\<dots> = map (\<lambda>r. if r \<in> set (m # sel) then r\<lparr> relevance_score := clampedRelevance now r \<rparr> else r) (memories s)"
      using True by (intro map_cong) auto
    finally show ?thesis .
  next
    case False
    let ?s1 = "setRelevance ?c (row_id m) s"
    have mem1: "memories ?s1 = map (\<lambda>r. if r = m then r\<lparr> relevance_score := ?c \<rparr> else r) (memories s)"
      unfolding setRelevance_memories using id_m by (intro map_cong) auto
    have d1: "distinct (map row_id (memories ?s1))"
      using Cons.prems(1) by (simp add: setRelevance_ids)
    have sel1: "set sel \<subseteq> set (memories ?s1)"
    proof
      fix x assume x: "x \<in> set sel"
      then have "x \<in> set (memories s)" "x \<noteq> m" using sel_in m_notin by auto
      then show "x \<in> set (memories ?s1)" unfolding mem1 by force
    qed
    have upd_notin: "m\<lparr> relevance_score := ?c \<rparr> \<notin> set sel"
    proof
      assume "m\<lparr> relevance_score := ?c \<rparr> \<in> set sel"
      then have "m\<lparr> relevance_score := ?c \<rparr> \<in> set (memories s)" using sel_in by auto
      from id_m [OF this] have "m\<lparr> relevance_score := ?c \<rparr> = m" by simp
      then have "relevance_score (m\<lparr> relevance_score := ?c \<rparr>) = relevance_score m" by simp
      then show False using False by simp
    qed
    have "memories (fst (decayLoop now (m # sel) (s, u, a))) =
          memories (fst (decayLoop now sel (?s1, u + 1, (if ?c < 0.05 then a + 1 else a))))"
      using False by (simp add: Let_def)
    also have "\<dots> = map (\<lambda>r. if r \<in> set sel then r\<lparr> relevance_score := clampedRelevance now r \<rparr> else r) (memories ?s1)"
      by (rule Cons.IH [OF d1 sel1 dsel])
    also have "\<dots> = map (\<lambda>r. if r \<in> set (m # sel) then r\<lparr> relevance_score := clampedRelevance now r \<rparr> else r) (memories s)"
      unfolding mem1 map_map using upd_notin m_notin by (intro map_cong) auto
    finally show ?thesis .
  qed
qed

lemma decayLoop_frame:
  "entity_table (fst (decayLoop now sel (s, u, a))) = entity_table s
   \<and> memory_entities (fst (decayLoop now sel (s, u, a))) = memory_entities s"
  by (induction sel arbitrary: s u a) (auto simp: Let_def setRelevance_def)

lemma applyDecay_memories:
  assumes "uniqueIds s"
  shows "memories (fst (applyDecay now s)) = map (decayRow now) (memories s)"
proof -
  have d: "distinct (memories s)" using assms unfolding uniqueIds_def by (simp add: distinct_map)
  have "memories (fst (applyDecay now s)) =
     map (\<lambda>r. if r \<in> set (filter (\<lambda>r. \<not> row_pinned r) (memories s))
               then r\<lparr> relevance_score := clampedRelevance now r \<rparr> else r) (memories s)"
    unfolding applyDecay_def
    using assms d by (intro decayLoop_memories) (auto simp: uniqueIds_def)
  also have "\<dots> = map (decayRow now) (memories s)"
    by (intro map_cong) (auto simp: decayRow_def)
  finally show ?thesis .
qed



text \<open>
  Claim C1 (the code departs from it). The sweep computes
  \<open>clamp(exp(-decayRate * daysIdle * 0.01), 0, 1)\<close> and never reads the use count:
  two facts that differ only in their use count (20 and 0), idle for 15 days at decay
  rate 0.3, both end at \<open>exp(-0.045)\<close>, which is below the value
  \<open>exp(-0.045 / 7)\<close> that the dampening factor \<open>1 / (1 + 20 * 0.3)\<close> would give.
\<close>

theorem C1_no_usage_dampening:
  "relevance_score (memories (fst (applyDecay 1296000000 decayExampleStore)) ! 0)
     = exp (- (45 / 1000))
   \<and> relevance_score (memories (fst (applyDecay 1296000000 decayExampleStore)) ! 1)
     = exp (- (45 / 1000))
   \<and> access_count (memories (fst (applyDecay 1296000000 decayExampleStore)) ! 0) = 20
   \<and> access_count (memories (fst (applyDecay 1296000000 decayExampleStore)) ! 1) = 0
   \<and> exp (- (45 / 1000)) < exp (- (3 / 10) * 15 * (1 / 100) * (1 / (1 + 20 * (3 / 10)) :: real))"
proof -
  have u: "uniqueIds decayExampleStore"
    by (simp add: uniqueIds_def decayExampleStore_def decayExampleRow_def)
  have m: "memories (fst (applyDecay 1296000000 decayExampleStore))
           = map (decayRow 1296000000) (memories decayExampleStore)"
    by (rule applyDecay_memories [OF u])
  show ?thesis
    unfolding m
    by (simp add: decayExampleStore_def decayExampleRow_def decayRow_def
        clampedRelevance_def ONE_DAY_def)
qed






subsection \<open>Operations that keep identifiers, pins and relevance\<close>

lemma keeps_refl: "keeps s s"
  by (simp add: keeps_def list_all2_same rowKept_def)

lemma keeps_trans: "keeps s s1 \<Longrightarrow> keeps s1 s2 \<Longrightarrow> keeps s s2"
  unfolding keeps_def
  by (rule list_all2_trans [of rowKept rowKept rowKept]) (auto simp: rowKept_def)

lemma keeps_map:
  assumes "memories s' = map f (memories s)"
    and "\<And>r. rowKept r (f r)"
  shows "keeps s s'"
  unfolding keeps_def assms(1) using assms(2) by (simp add: list_all2_map2 list_all2_same)

lemma rowKept_ids: "list_all2 rowKept xs ys \<Longrightarrow> map row_id ys = map row_id xs"
  by (induction xs ys rule: list_all2_induct) (auto simp: rowKept_def)

lemma keeps_uniqueIds: "keeps s s' \<Longrightarrow> uniqueIds s \<Longrightarrow> uniqueIds s'"
  unfolding keeps_def uniqueIds_def by (simp add: rowKept_ids)

lemma keeps_pinnedAtFull:
  assumes "keeps s s'" "pinnedAtFull s"
  shows "pinnedAtFull s'"
  unfolding pinnedAtFull_def
proof (intro ballI impI)
  fix r' assume r': "r' \<in> set (memories s')" and p: "row_pinned r'"
  from r' obtain n where n: "n < length (memories s')" "memories s' ! n = r'"
    by (auto simp: in_set_conv_nth)
  from assms(1) have len: "length (memories s) = length (memories s')"
    and k: "rowKept (memories s ! n) (memories s' ! n)"
    using n(1) unfolding keeps_def by (auto dest: list_all2_lengthD list_all2_nthD2)
  have "memories s ! n \<in> set (memories s)" using n(1) len by simp
  with assms(2) k p n(2) show "relevance_score r' = 1"
    unfolding pinnedAtFull_def rowKept_def by auto
qed

lemma getMemory_store:
  "snd (getMemory now i s) =
     (if getRow s i = None then s
      else s\<lparr> memories :=
                map (\<lambda>r. if row_id r = i
                          then r\<lparr> last_accessed := now, access_count := access_count r + 1 \<rparr>
                          else r) (memories s) \<rparr>)"
  by (simp add: getMemory_def split: option.splits)

lemma keeps_getMemory: "keeps s (snd (getMemory now i s))"
proof (cases "getRow s i = None")
  case True
  then show ?thesis by (simp add: getMemory_store keeps_refl)
next
  case False
  show ?thesis
    by (rule keeps_map [where f = "\<lambda>r. if row_id r = i
          then r\<lparr> last_accessed := now, access_count := access_count r + 1 \<rparr> else r"])
       (use False in \<open>auto simp: getMemory_store rowKept_def\<close>)
qed

lemma keeps_updateConfidence: "keeps s (updateConfidence now i c s)"
  by (rule keeps_map [where f = "\<lambda>r. if row_id r = i
        then r\<lparr> row_confidence := c, row_updated := now \<rparr> else r"])
     (simp_all add: updateConfidence_def rowKept_def)

lemma keeps_updateMemory:
  assumes "up_pinned u \<noteq> Some True"
  shows "keeps s (snd (updateMemory now i u s))"
proof -
  obtain m1 s1 where g: "getMemory now i s = (m1, s1)"
    by (cases "getMemory now i s")
  have k1: "keeps s s1" using keeps_getMemory [of s now i] g by simp
  show ?thesis
  proof (cases m1)
    case None
    then show ?thesis using g k1 by (simp add: updateMemory_def)
  next
    case (Some existing)
    let ?s2 = "s1\<lparr> memories := map (\<lambda>r. if row_id r = i then applyUpdates now u r else r)
                                 (memories s1) \<rparr>"
    have e: "snd (updateMemory now i u s) = snd (getMemory now i ?s2)"
      using Some g by (simp add: updateMemory_def)
    have k2: "keeps s1 ?s2"
      by (rule keeps_map [where f = "\<lambda>r. if row_id r = i then applyUpdates now u r else r"])
         (use assms in \<open>auto simp: rowKept_def applyUpdates_def split: option.splits\<close>)
    show ?thesis
      unfolding e
      by (rule keeps_trans [OF keeps_trans [OF k1 k2] keeps_getMemory])
  qed
qed

lemma keeps_corroborationLoop:
  "keeps s (fst (corroborationLoop now newMemory cands (s, results)))"
proof (induction cands arbitrary: s results)
  case Nil
  show ?case by (simp add: keeps_refl)
next
  case (Cons c cands)
  show ?case
    by (auto simp: Let_def intro: Cons.IH keeps_trans [OF keeps_updateConfidence Cons.IH])
qed

lemma keeps_checkCorroboration: "keeps s (snd (checkCorroboration now newMemory s))"
  using keeps_corroborationLoop [of s now newMemory "findRelated newMemory s" "[]"]
  by (cases "corroborationLoop now newMemory (findRelated newMemory s) (s, [])")
     (simp add: checkCorroboration_def)

lemma keeps_markContradiction: "keeps s (markContradiction now a b s)"
  by (simp add: markContradiction_def keeps_updateConfidence)

lemma keeps_contradictionInner:
  "keeps s (fst (contradictionInner now a bs (s, found)))"
proof (induction bs arbitrary: s found)
  case Nil
  show ?case by (simp add: keeps_refl)
next
  case (Cons b bs)
  have k2: "keeps s (markContradiction now b a (markContradiction now a b s))"
    by (rule keeps_trans [OF keeps_markContradiction keeps_markContradiction])
  show ?case
    by (auto simp: Cons.IH split: option.splits intro: keeps_trans [OF k2 Cons.IH])
qed

lemma keeps_contradictionOuter:
  "keeps s (fst (contradictionOuter now limit ms (s, found)))"
proof (induction ms arbitrary: s found)
  case Nil
  show ?case by (simp add: keeps_refl)
next
  case (Cons a ms)
  obtain s1 f1 where i: "contradictionInner now a ms (s, found) = (s1, f1)"
    by (cases "contradictionInner now a ms (s, found)")
  have k1: "keeps s s1" using keeps_contradictionInner [of s now a ms found] i by simp
  show ?case
    using i by (auto simp: keeps_refl intro: keeps_trans [OF k1 Cons.IH])
qed

lemma keeps_findContradictions: "keeps s (snd (findContradictions now limit s))"
  using keeps_contradictionOuter [of s now limit "getAllMemories 200 s" "[]"]
  by (cases "contradictionOuter now limit (getAllMemories 200 s) (s, [])")
     (simp add: findContradictions_def)

lemma keeps_verifyMemory: "keeps s (snd (verifyMemory now i s))"
proof -
  obtain m1 s1 where g: "getMemory now i s = (m1, s1)"
    by (cases "getMemory now i s")
  have k1: "keeps s s1" using keeps_getMemory [of s now i] g by simp
  show ?thesis
  proof (cases m1)
    case None
    then show ?thesis using g k1 by (simp add: verifyMemory_def)
  next
    case (Some memory)
    obtain n ev where l: "verifyLoop i memory (findRelated memory s1) (0, []) = (n, ev)"
      by (cases "verifyLoop i memory (findRelated memory s1) (0, [])")
    show ?thesis
      using Some g l k1
      by (auto simp: verifyMemory_def Let_def intro: keeps_trans [OF k1 keeps_updateConfidence])
  qed
qed

subsection \<open>linkEntities\<close>

lemma find_snoc:
  "find P (xs @ [y]) = (case find P xs of None \<Rightarrow> (if P y then Some y else None) | Some x \<Rightarrow> Some x)"
  by (induction xs) auto

lemma find_map_keep:
  assumes "\<And>x. P (f x) = P x"
  shows "find P (map f xs) = map_option f (find P xs)"
  using assms by (induction xs) auto

lemma getEntity_autoCreate:
  "getEntity (autoCreateEntity now x s) e =
     (if x = e \<and> getEntity s e = None
      then Some \<lparr> ent_id = e, name = e, etype = Concept, description = None,
                  aliases = [], metadata = [], ent_created = now, ent_updated = now,
                  memoryCount = 0 \<rparr>
      else getEntity s e)"
  by (auto simp: autoCreateEntity_def getEntity_def find_snoc split: option.splits)

lemma autoCreate_frame:
  "memories (autoCreateEntity now x s) = memories s
   \<and> memory_entities (autoCreateEntity now x s) = memory_entities s"
  by (simp add: autoCreateEntity_def)

lemma getEntity_updateCount:
  "getEntity (updateCount x s) e =
     map_option (\<lambda>ent. if x = e then ent\<lparr> memoryCount := memoryCount ent + 1 \<rparr> else ent)
                (getEntity s e)"
proof -
  have "getEntity (updateCount x s) e =
        map_option (\<lambda>ent. if ent_id ent = x then ent\<lparr> memoryCount := memoryCount ent + 1 \<rparr> else ent)
                   (getEntity s e)"
    unfolding getEntity_def updateCount_def
    by (simp add: find_map_keep)
  moreover have "\<And>ent. getEntity s e = Some ent \<Longrightarrow> ent_id ent = e"
    unfolding getEntity_def by (auto simp: find_Some_iff)
  ultimately show ?thesis
    by (cases "getEntity s e") auto
qed

lemma updateCount_frame:
  "memories (updateCount x s) = memories s
   \<and> memory_entities (updateCount x s) = memory_entities s"
  by (simp add: updateCount_def)

text \<open>One round of the loop of linkEntities never throws when the memory row exists.\<close>

lemma insertLink_after_autoCreate:
  assumes "getRow s mid \<noteq> None"
  shows "\<exists>s'. insertLink mid x (autoCreateEntity now x s) = Inr s'
           \<and> memories s' = memories s
           \<and> entity_table s' = entity_table (autoCreateEntity now x s)
           \<and> set (memory_entities s') = insert (mid, x) (set (memory_entities s))"
proof -
  let ?s1 = "autoCreateEntity now x s"
  have e: "getEntity ?s1 x \<noteq> None" by (simp add: getEntity_autoCreate)
  have r: "getRow ?s1 mid \<noteq> None" using assms by (simp add: getRow_def autoCreate_frame)
  show ?thesis
    using e r by (auto simp: insertLink_def autoCreate_frame)
qed

lemma getEntity_cong: "entity_table s = entity_table t \<Longrightarrow> getEntity s e = getEntity t e"
  by (simp add: getEntity_def)

lemma getRow_cong: "memories s = memories t \<Longrightarrow> getRow s i = getRow t i"
  by (simp add: getRow_def)

lemma linkEntities_ok:
  assumes "getRow s mid \<noteq> None"
  shows "\<exists>s'. linkEntities now mid es s = Inr s'
           \<and> memories s' = memories s
           \<and> set (memory_entities s') = set (memory_entities s) \<union> {(mid, e) | e. e \<in> set es}
           \<and> (\<forall>e. getEntity s' e =
                 (case getEntity s e of
                    Some ent \<Rightarrow> Some (ent\<lparr> memoryCount := memoryCount ent + count_list es e \<rparr>)
                  | None \<Rightarrow>
                      if e \<in> set es
                      then Some \<lparr> ent_id = e, name = e, etype = Concept, description = None,
                                  aliases = [], metadata = [], ent_created = now,
                                  ent_updated = now, memoryCount = count_list es e \<rparr>
                      else None))"
  using assms
proof (induction es arbitrary: s)
  case Nil
  show ?case by (auto split: option.splits)
next
  case (Cons x es)
  from insertLink_after_autoCreate [OF Cons.prems, of x now]
  obtain s1 where s1: "insertLink mid x (autoCreateEntity now x s) = Inr s1"
    and m1: "memories s1 = memories s"
    and t1: "entity_table s1 = entity_table (autoCreateEntity now x s)"
    and l1: "set (memory_entities s1) = insert (mid, x) (set (memory_entities s))"
    by blast
  let ?s2 = "updateCount x s1"
  have r2: "getRow ?s2 mid \<noteq> None"
    using Cons.prems by (simp add: getRow_def updateCount_frame m1)
  from Cons.IH [OF r2]
  obtain s' where s': "linkEntities now mid es ?s2 = Inr s'"
    and m': "memories s' = memories ?s2"
    and l': "set (memory_entities s') = set (memory_entities ?s2) \<union> {(mid, e) | e. e \<in> set es}"
    and e': "\<And>e. getEntity s' e =
                 (case getEntity ?s2 e of
                    Some ent \<Rightarrow> Some (ent\<lparr> memoryCount := memoryCount ent + count_list es e \<rparr>)
                  | None \<Rightarrow>
                      if e \<in> set es
                      then Some \<lparr> ent_id = e, name = e, etype = Concept, description = None,
                                  aliases = [], metadata = [], ent_created = now,
                                  ent_updated = now, memoryCount = count_list es e \<rparr>
                      else None)"
    by blast
  have g2: "\<And>e. getEntity ?s2 e =
      map_option (\<lambda>ent. if x = e then ent\<lparr> memoryCount := memoryCount ent + 1 \<rparr> else ent)
        (if x = e \<and> getEntity s e = None
         then Some \<lparr> ent_id = e, name = e, etype = Concept, description = None,
                  aliases = [], metadata = [], ent_created = now, ent_updated = now,
                  memoryCount = 0 \<rparr>
         else getEntity s e)"
    unfolding getEntity_updateCount getEntity_cong [OF t1] getEntity_autoCreate ..
  have run: "linkEntities now mid (x # es) s = Inr s'"
    using s1 s' by simp
  have mem: "memories s' = memories s"
    using m' m1 by (simp add: updateCount_frame)
  have links: "set (memory_entities s') = set (memory_entities s) \<union> {(mid, e) | e. e \<in> set (x # es)}"
    using l' l1 by (auto simp: updateCount_frame)
  have ents: "\<forall>e. getEntity s' e =
                 (case getEntity s e of
                    Some ent \<Rightarrow> Some (ent\<lparr> memoryCount := memoryCount ent + count_list (x # es) e \<rparr>)
                  | None \<Rightarrow>
                      if e \<in> set (x # es)
                      then Some \<lparr> ent_id = e, name = e, etype = Concept, description = None,
                                  aliases = [], metadata = [], ent_created = now,
                                  ent_updated = now, memoryCount = count_list (x # es) e \<rparr>
                      else None)"
  proof
    fix e
    show "getEntity s' e =
                 (case getEntity s e of
                    Some ent \<Rightarrow> Some (ent\<lparr> memoryCount := memoryCount ent + count_list (x # es) e \<rparr>)
                  | None \<Rightarrow>
                      if e \<in> set (x # es)
                      then Some \<lparr> ent_id = e, name = e, etype = Concept, description = None,
                                  aliases = [], metadata = [], ent_created = now,
                                  ent_updated = now, memoryCount = count_list (x # es) e \<rparr>
                      else None)"
      unfolding e' g2
      by (cases "getEntity s e") (auto simp: add.commute add.left_commute)
  qed
  from run mem links ents show ?case by blast
qed

subsection \<open>createMemory\<close>

lemma insertMemory_ok:
  assumes "getRow s (mem_id m) = None"
  shows "\<exists>s1 row. insertMemory m s = Inr s1 \<and> memories s1 = memories s @ [row]
           \<and> row_id row = mem_id m \<and> relevance_score row = relevanceScore m
           \<and> row_pinned row = pinned m
           \<and> entity_table s1 = entity_table s \<and> memory_entities s1 = memory_entities s
           \<and> getRow s1 (mem_id m) \<noteq> None"
  using assms by (simp add: insertMemory_def getRow_def find_snoc)

lemma createMemory_ok:
  assumes "getRow s uid = None"
  shows "\<exists>s' row. createMemory now uid input s = Inr (buildMemory now uid input, s')
           \<and> memories s' = memories s @ [row]
           \<and> row_id row = uid \<and> relevance_score row = 1
           \<and> set (memory_entities s') = set (memory_entities s)
                \<union> {(uid, e) | e. e \<in> set (entities (buildMemory now uid input))}
           \<and> (\<forall>e. getEntity s' e =
                 (case getEntity s e of
                    Some ent \<Rightarrow> Some (ent\<lparr> memoryCount := memoryCount ent
                        + count_list (entities (buildMemory now uid input)) e \<rparr>)
                  | None \<Rightarrow>
                      if e \<in> set (entities (buildMemory now uid input))
                      then Some \<lparr> ent_id = e, name = e, etype = Concept, description = None,
                                  aliases = [], metadata = [], ent_created = now,
                                  ent_updated = now,
                                  memoryCount = count_list (entities (buildMemory now uid input)) e \<rparr>
                      else None))"
proof -
  let ?m = "buildMemory now uid input"
  have id: "mem_id ?m = uid" and rel: "relevanceScore ?m = 1"
    by (simp_all add: buildMemory_def)
  from insertMemory_ok [of s ?m] assms id rel
  obtain s1 row where i: "insertMemory ?m s = Inr s1"
    and m1: "memories s1 = memories s @ [row]" and rid: "row_id row = uid"
    and rrel: "relevance_score row = 1"
    and t1: "entity_table s1 = entity_table s" and l1: "memory_entities s1 = memory_entities s"
    and r1: "getRow s1 uid \<noteq> None"
    by auto
  have g1: "\<And>e. getEntity s1 e = getEntity s e" by (rule getEntity_cong [OF t1])
  show ?thesis
  proof (cases "entities ?m = []")
    case True
    then have "createMemory now uid input s = Inr (?m, s1)"
      using i by (auto simp: createMemory_def buildMemory_def Let_def split: option.splits)
    moreover have "\<forall>e. getEntity s1 e =
                 (case getEntity s e of
                    Some ent \<Rightarrow> Some (ent\<lparr> memoryCount := memoryCount ent
                        + count_list (entities ?m) e \<rparr>)
                  | None \<Rightarrow>
                      if e \<in> set (entities ?m)
                      then Some \<lparr> ent_id = e, name = e, etype = Concept, description = None,
                                  aliases = [], metadata = [], ent_created = now,
                                  ent_updated = now,
                                  memoryCount = count_list (entities ?m) e \<rparr>
                      else None)"
      unfolding g1 True by (simp split: option.splits)
    ultimately show ?thesis
      using m1 rid rrel l1 True by auto
  next
    case False
    from linkEntities_ok [OF r1, of now "entities ?m"]
    obtain s2 where l: "linkEntities now uid (entities ?m) s1 = Inr s2"
      and m2: "memories s2 = memories s1"
      and l2: "set (memory_entities s2) = set (memory_entities s1) \<union> {(uid, e) | e. e \<in> set (entities ?m)}"
      and e2: "\<forall>e. getEntity s2 e =
                 (case getEntity s1 e of
                    Some ent \<Rightarrow> Some (ent\<lparr> memoryCount := memoryCount ent + count_list (entities ?m) e \<rparr>)
                  | None \<Rightarrow>
                      if e \<in> set (entities ?m)
                      then Some \<lparr> ent_id = e, name = e, etype = Concept, description = None,
                                  aliases = [], metadata = [], ent_created = now,
                                  ent_updated = now, memoryCount = count_list (entities ?m) e \<rparr>
                      else None)"
      by blast
    have "createMemory now uid input s = Inr (?m, s2)"
      using i l False by (auto simp: createMemory_def buildMemory_def Let_def split: option.splits)
    then show ?thesis
      using m1 m2 rid rrel l1 l2 e2 unfolding g1 by auto
  qed
qed

text \<open>
  Claim C10. A createMemory call whose identifier is fresh never throws, whatever
  entity ids it lists: every listed id that the entity table does not know is created
  as an entity of type concept, named after the id, with no aliases; the new fact is
  linked to it, and its memory count is raised from 0 once for each time the id is
  listed (so to at least 1).
\<close>

theorem C10_unknown_entities_are_created:
  assumes "getRow s uid = None"
  shows "\<exists>m s'. createMemory now uid input s = Inr (m, s')
           \<and> (\<forall>es e. in_entities input = Some es \<and> e \<in> set es \<and> getEntity s e = None \<longrightarrow>
                 getEntity s' e =
                   Some \<lparr> ent_id = e, name = e, etype = Concept, description = None,
                          aliases = [], metadata = [], ent_created = now, ent_updated = now,
                          memoryCount = count_list es e \<rparr>
                 \<and> 1 \<le> count_list es e
                 \<and> (uid, e) \<in> set (memory_entities s')
                 \<and> e \<in> set (entities m))"
proof -
  from createMemory_ok [OF assms, of now input]
  obtain s' where c: "createMemory now uid input s = Inr (buildMemory now uid input, s')"
    and l: "set (memory_entities s') = set (memory_entities s)
                \<union> {(uid, e) | e. e \<in> set (entities (buildMemory now uid input))}"
    and g: "\<forall>e. getEntity s' e =
                 (case getEntity s e of
                    Some ent \<Rightarrow> Some (ent\<lparr> memoryCount := memoryCount ent
                        + count_list (entities (buildMemory now uid input)) e \<rparr>)
                  | None \<Rightarrow>
                      if e \<in> set (entities (buildMemory now uid input))
                      then Some \<lparr> ent_id = e, name = e, etype = Concept, description = None,
                                  aliases = [], metadata = [], ent_created = now,
                                  ent_updated = now,
                                  memoryCount = count_list (entities (buildMemory now uid input)) e \<rparr>
                      else None)"
    by blast
  have "\<forall>es e. in_entities input = Some es \<and> e \<in> set es \<and> getEntity s e = None \<longrightarrow>
                 getEntity s' e =
                   Some \<lparr> ent_id = e, name = e, etype = Concept, description = None,
                          aliases = [], metadata = [], ent_created = now, ent_updated = now,
                          memoryCount = count_list es e \<rparr>
                 \<and> 1 \<le> count_list es e
                 \<and> (uid, e) \<in> set (memory_entities s')
                 \<and> e \<in> set (entities (buildMemory now uid input))"
  proof (intro allI impI)
    fix es e
    assume h: "in_entities input = Some es \<and> e \<in> set es \<and> getEntity s e = None"
    then have ents: "entities (buildMemory now uid input) = es"
      by (simp add: buildMemory_def)
    have cnt: "1 \<le> count_list es e"
      using h count_list_0_iff [of es e] by auto
    from g h ents have "getEntity s' e =
                   Some \<lparr> ent_id = e, name = e, etype = Concept, description = None,
                          aliases = [], metadata = [], ent_created = now, ent_updated = now,
                          memoryCount = count_list es e \<rparr>"
      by simp
    with cnt l h ents
    show "getEntity s' e =
                   Some \<lparr> ent_id = e, name = e, etype = Concept, description = None,
                          aliases = [], metadata = [], ent_created = now, ent_updated = now,
                          memoryCount = count_list es e \<rparr>
                 \<and> 1 \<le> count_list es e
                 \<and> (uid, e) \<in> set (memory_entities s')
                 \<and> e \<in> set (entities (buildMemory now uid input))"
      by simp
  qed
  with c show ?thesis by blast
qed

theorem C10_unknown_entities_are_created_witness:
  "getRow emptyStore ''m1'' = None
   \<and> (\<exists>m s'. createMemory 5 ''m1'' (exampleInput\<lparr> in_entities := Some [''shaun''] \<rparr>) emptyStore
                = Inr (m, s')
        \<and> getEntity s' ''shaun'' =
             Some \<lparr> ent_id = ''shaun'', name = ''shaun'', etype = Concept, description = None,
                    aliases = [], metadata = [], ent_created = 5, ent_updated = 5,
                    memoryCount = 1 \<rparr>
        \<and> (''m1'', ''shaun'') \<in> set (memory_entities s')
        \<and> ''shaun'' \<in> set (entities m))"
proof -
  have h: "getRow emptyStore ''m1'' = None"
    by (simp add: getRow_def emptyStore_def)
  have i: "in_entities (exampleInput\<lparr> in_entities := Some [''shaun''] \<rparr>) = Some [''shaun'']
           \<and> ''shaun'' \<in> set [''shaun''] \<and> getEntity emptyStore ''shaun'' = None"
    by (simp add: getEntity_def emptyStore_def)
  from C10_unknown_entities_are_created [OF h, of 5 "exampleInput\<lparr> in_entities := Some [''shaun''] \<rparr>"]
  obtain m s' where c: "createMemory 5 ''m1'' (exampleInput\<lparr> in_entities := Some [''shaun''] \<rparr>) emptyStore
                = Inr (m, s')"
    and a: "\<forall>es e. in_entities (exampleInput\<lparr> in_entities := Some [''shaun''] \<rparr>) = Some es
                 \<and> e \<in> set es \<and> getEntity emptyStore e = None \<longrightarrow>
                 getEntity s' e =
                   Some \<lparr> ent_id = e, name = e, etype = Concept, description = None,
                          aliases = [], metadata = [], ent_created = 5, ent_updated = 5,
                          memoryCount = count_list es e \<rparr>
                 \<and> 1 \<le> count_list es e
                 \<and> (''m1'', e) \<in> set (memory_entities s')
                 \<and> e \<in> set (entities m)"
    by blast
  from a i have "getEntity s' ''shaun'' =
                   Some \<lparr> ent_id = ''shaun'', name = ''shaun'', etype = Concept, description = None,
                          aliases = [], metadata = [], ent_created = 5, ent_updated = 5,
                          memoryCount = count_list [''shaun''] ''shaun'' \<rparr>
                 \<and> (''m1'', ''shaun'') \<in> set (memory_entities s')
                 \<and> ''shaun'' \<in> set (entities m)"
    by blast
  with h c show ?thesis by auto
qed

subsection \<open>Sequences of operations\<close>

lemma createMemory_dup:
  "getRow s uid \<noteq> None \<Longrightarrow> createMemory now uid input s = Inl SQLITE_CONSTRAINT_PRIMARYKEY"
  by (simp add: createMemory_def insertMemory_def buildMemory_def Let_def)

lemma step_preserves:
  assumes "uniqueIds s" "pinnedAtFull s" "\<not> setsPin op"
  shows "uniqueIds (step op s) \<and> pinnedAtFull (step op s)"
proof (cases op)
  case (OpCreateMemory now uid input)
  show ?thesis
  proof (cases "getRow s uid = None")
    case True
    from createMemory_ok [OF True, of now input]
    obtain s' row where c: "createMemory now uid input s = Inr (buildMemory now uid input, s')"
      and m: "memories s' = memories s @ [row]" and rid: "row_id row = uid"
      and rel: "relevance_score row = 1"
      by blast
    have fresh: "uid \<notin> row_id ` set (memories s)"
      using True by (auto simp: getRow_def find_None_iff)
    have "step op s = s'" using OpCreateMemory c by simp
    then show ?thesis
      using assms(1,2) m rid rel fresh by (auto simp: uniqueIds_def pinnedAtFull_def)
  next
    case False
    then have "step op s = s" using OpCreateMemory by (simp add: createMemory_dup)
    then show ?thesis using assms by simp
  qed
next
  case (OpGetMemory now i)
  then have "keeps s (step op s)" by (simp add: keeps_getMemory)
  then show ?thesis using assms by (blast intro: keeps_uniqueIds keeps_pinnedAtFull)
next
  case (OpUpdateMemory now i u)
  then have "keeps s (step op s)" using assms(3) by (simp add: keeps_updateMemory)
  then show ?thesis using assms by (blast intro: keeps_uniqueIds keeps_pinnedAtFull)
next
  case (OpApplyDecay now)
  have m: "memories (step op s) = map (decayRow now) (memories s)"
    using OpApplyDecay assms(1) by (simp add: applyDecay_memories)
  have ids: "map row_id (memories (step op s)) = map row_id (memories s)"
    unfolding m by (simp add: decayRow_def comp_def cong: map_cong)
  have "pinnedAtFull (step op s)"
    using assms(2) unfolding pinnedAtFull_def m by (auto simp: decayRow_def)
  then show ?thesis using ids assms(1) by (simp add: uniqueIds_def)
next
  case (OpCheckCorroboration now newMemory)
  then have "keeps s (step op s)" by (simp add: keeps_checkCorroboration)
  then show ?thesis using assms by (blast intro: keeps_uniqueIds keeps_pinnedAtFull)
next
  case (OpFindContradictions now limit)
  then have "keeps s (step op s)" by (simp add: keeps_findContradictions)
  then show ?thesis using assms by (blast intro: keeps_uniqueIds keeps_pinnedAtFull)
next
  case (OpVerifyMemory now i)
  then have "keeps s (step op s)" by (simp add: keeps_verifyMemory)
  then show ?thesis using assms by (blast intro: keeps_uniqueIds keeps_pinnedAtFull)
qed

lemma run_preserves:
  "uniqueIds s \<Longrightarrow> pinnedAtFull s \<Longrightarrow> \<forall>op \<in> set ops. \<not> setsPin op \<Longrightarrow>
   uniqueIds (run ops s) \<and> pinnedAtFull (run ops s)"
proof (induction ops arbitrary: s)
  case Nil
  then show ?case by simp
next
  case (Cons op ops)
  have "uniqueIds (step op s) \<and> pinnedAtFull (step op s)"
    using Cons.prems by (intro step_preserves) auto
  then show ?case using Cons.IH [of "step op s"] Cons.prems(3) by simp
qed

text \<open>
  Claim C2, as stated, fails: a fact is created unpinned, a sweep ten days later
  lowers its relevance to \<open>exp(-0.01)\<close>, and updateMemory then pins it without
  touching the relevance. The state holds a pinned fact with relevance below 1.
\<close>

theorem C2_counterexample:
  "row_pinned (hd (memories (run [OpCreateMemory 0 ''m1'' exampleInput,
                                  OpApplyDecay 864000000,
                                  OpUpdateMemory 864000000 ''m1'' (noUpdates\<lparr> up_pinned := Some True \<rparr>)]
                                 emptyStore)))
   \<and> relevance_score (hd (memories (run [OpCreateMemory 0 ''m1'' exampleInput,
                                  OpApplyDecay 864000000,
                                  OpUpdateMemory 864000000 ''m1'' (noUpdates\<lparr> up_pinned := Some True \<rparr>)]
                                 emptyStore))) < 1"
  by (simp add: createMemory_def buildMemory_def insertMemory_def emptyStore_def
      exampleInput_def noUpdates_def getRow_def applyDecay_def clampedRelevance_def ONE_DAY_def setRelevance_def updateMemory_def
      getMemory_def applyUpdates_def Let_def)

text \<open>
  Claim C2, amended. In every state reached from the empty store by createMemory,
  getMemory, updateMemory, applyDecay, checkCorroboration, findContradictions and
  verifyMemory in which no updateMemory call sets the pin, every pinned fact has
  relevance 1: facts are pinned at creation only, creation sets relevance 1, and no
  operation changes the relevance of a pinned fact.
\<close>

theorem C2_pinned_relevance_amended:
  assumes "\<forall>op \<in> set ops. \<not> setsPin op"
  shows "pinnedAtFull (run ops emptyStore)"
  using run_preserves [of emptyStore ops] assms
  by (simp add: uniqueIds_def pinnedAtFull_def emptyStore_def)

theorem C2_pinned_relevance_amended_witness:
  "\<not> setsPin (OpCreateMemory 0 ''m1'' (exampleInput\<lparr> in_pinned := Some True \<rparr>))
   \<and> \<not> setsPin (OpApplyDecay 864000000)
   \<and> \<not> setsPin (OpUpdateMemory 864000000 ''m1'' (noUpdates\<lparr> up_content := Some ''new text'' \<rparr>))
   \<and> row_pinned (hd (memories (run [OpCreateMemory 0 ''m1'' (exampleInput\<lparr> in_pinned := Some True \<rparr>),
                                  OpApplyDecay 864000000,
                                  OpUpdateMemory 864000000 ''m1'' (noUpdates\<lparr> up_content := Some ''new text'' \<rparr>)]
                                 emptyStore)))
   \<and> relevance_score (hd (memories (run [OpCreateMemory 0 ''m1'' (exampleInput\<lparr> in_pinned := Some True \<rparr>),
                                  OpApplyDecay 864000000,
                                  OpUpdateMemory 864000000 ''m1'' (noUpdates\<lparr> up_content := Some ''new text'' \<rparr>)]
                                 emptyStore))) = 1"
proof -
  let ?ops = "[OpCreateMemory 0 ''m1'' (exampleInput\<lparr> in_pinned := Some True \<rparr>),
               OpApplyDecay 864000000,
               OpUpdateMemory 864000000 ''m1'' (noUpdates\<lparr> up_content := Some ''new text'' \<rparr>)]"
  have h: "\<forall>op \<in> set ?ops. \<not> setsPin op" by (simp add: noUpdates_def)
  have e: "memories (run ?ops emptyStore) \<noteq> [] \<and> row_pinned (hd (memories (run ?ops emptyStore)))"
    by (simp add: createMemory_def buildMemory_def insertMemory_def emptyStore_def
      exampleInput_def noUpdates_def getRow_def applyDecay_def updateMemory_def
      getMemory_def applyUpdates_def Let_def)
  from C2_pinned_relevance_amended [OF h] e
  have "relevance_score (hd (memories (run ?ops emptyStore))) = 1"
    unfolding pinnedAtFull_def by (meson hd_in_set)
  with h e show ?thesis by simp
qed

subsection \<open>Invariants of the reachable states\<close>

text \<open>
  Every score that the operations write is rounded to two decimals and at most 1, and
  the identifiers stay unique; so both hold in every state reached from the empty
  store.
\<close>

lemma goodScore_round2: "x \<le> 1 \<Longrightarrow> goodScore (round2 x)"
proof -
  assume "x \<le> 1"
  then have "x * 100 + 1 / 2 < 101" by simp
  then have "\<lfloor>x * 100 + 1 / 2\<rfloor> < 101" by (simp add: floor_less_iff)
  then have "\<lfloor>x * 100 + 1 / 2\<rfloor> \<le> 100" by simp
  then have "real_of_int \<lfloor>x * 100 + 1 / 2\<rfloor> \<le> 100" by linarith
  then show ?thesis
    unfolding goodScore_def hundredths_def round2_def Math_round_def by auto
qed

lemma goodScore_min_round2: "goodScore (min 1 (round2 x))"
proof (cases "round2 x \<le> 1")
  case True
  then show ?thesis
    unfolding goodScore_def hundredths_def round2_def by (auto simp: min_def)
next
  case False
  have "(1::real) = real_of_int 100 / 100" by simp
  then have "hundredths 1" unfolding hundredths_def by blast
  then show ?thesis using False by (simp add: goodScore_def min_def)
qed

lemma goodScore_initial: "goodScore (score (computeInitialConfidence input))"
  by (simp add: computeInitialConfidence_def Let_def goodScore_min_round2)

lemma rowToMemory_score: "score (confidence (rowToMemory s r)) = score (row_confidence r)"
  by (simp add: rowToMemory_def)

lemma snapshot_good:
  assumes "scoresKept s" "set rows \<subseteq> set (memories s)" "m \<in> set (map (rowToMemory s) rows)"
  shows "goodScore (score (confidence m))"
  using assms unfolding scoresKept_def by (auto simp: rowToMemory_score)

lemma searchByText_good:
  "scoresKept s \<Longrightarrow> m \<in> set (searchByText t n s) \<Longrightarrow> goodScore (score (confidence m))"
  unfolding searchByText_def Let_def orderByRelevanceCreated_def
  by (erule snapshot_good [rotated 2]) (auto dest: in_set_takeD)

lemma getEntityMemories_good:
  "scoresKept s \<Longrightarrow> m \<in> set (getEntityMemories e n s) \<Longrightarrow> goodScore (score (confidence m))"
  unfolding getEntityMemories_def orderByRelevanceCreated_def
  by (erule snapshot_good [rotated 2]) (auto dest: in_set_takeD)

lemma getAllMemories_good:
  "scoresKept s \<Longrightarrow> m \<in> set (getAllMemories n s) \<Longrightarrow> goodScore (score (confidence m))"
  unfolding getAllMemories_def orderByCreated_def
  by (erule snapshot_good [rotated 2]) (auto dest: in_set_takeD)

lemma addCandidates_subset: "set (addCandidates c ms) \<subseteq> set c \<union> set ms"
proof (induction ms arbitrary: c)
  case Nil
  show ?case by simp
next
  case (Cons m ms)
  show ?case
    using Cons.IH [of "c @ [m]"] Cons.IH [of c] by (auto split: if_splits)
qed

lemma fold_addCandidates_good:
  assumes "scoresKept s" "\<forall>m \<in> set c. goodScore (score (confidence m))"
  shows "\<forall>m \<in> set (fold (\<lambda>entityId candidates.
                             addCandidates candidates (getEntityMemories entityId 20 s)) es c).
           goodScore (score (confidence m))"
  using assms(2)
proof (induction es arbitrary: c)
  case Nil
  then show ?case by simp
next
  case (Cons e es)
  have "\<forall>m \<in> set (addCandidates c (getEntityMemories e 20 s)). goodScore (score (confidence m))"
    using addCandidates_subset [of c "getEntityMemories e 20 s"] Cons.prems
      getEntityMemories_good [OF assms(1)] by blast
  from Cons.IH [OF this] show ?case by simp
qed

lemma findRelated_good:
  assumes "scoresKept s" "m \<in> set (findRelated mem s)"
  shows "goodScore (score (confidence m))"
proof -
  let ?by = "fold (\<lambda>entityId candidates.
                     addCandidates candidates (getEntityMemories entityId 20 s)) (entities mem) []"
  have b: "\<forall>m \<in> set ?by. goodScore (score (confidence m))"
    by (rule fold_addCandidates_good [OF assms(1)]) simp
  let ?kw = "join (take 3 (filter (\<lambda>w. length w > 4) (split (content mem))))"
  show ?thesis
  proof (cases "?kw = []")
    case True
    then have "findRelated mem s = ?by" by (simp add: findRelated_def Let_def)
    then show ?thesis using assms(2) b by simp
  next
    case False
    then have "findRelated mem s = addCandidates ?by (searchByText ?kw 10 s)"
      by (simp add: findRelated_def Let_def)
    then have "m \<in> set ?by \<union> set (searchByText ?kw 10 s)"
      using assms(2) addCandidates_subset [of ?by "searchByText ?kw 10 s"] by auto
    then show ?thesis using b searchByText_good [OF assms(1)] by blast
  qed
qed

lemma scoresKept_updateConfidence:
  "scoresKept s \<Longrightarrow> goodScore (score c) \<Longrightarrow> scoresKept (updateConfidence now i c s)"
  unfolding scoresKept_def updateConfidence_def by auto

lemma scoresKept_map:
  assumes "scoresKept s" "memories s' = map f (memories s)"
    "\<And>r. row_confidence (f r) = row_confidence r"
  shows "scoresKept s'"
  using assms unfolding scoresKept_def by auto

lemma scoresKept_getMemory: "scoresKept s \<Longrightarrow> scoresKept (snd (getMemory now i s))"
  by (cases "getRow s i = None")
     (auto simp: getMemory_store elim!: scoresKept_map [where f = "\<lambda>r. if row_id r = i
          then r\<lparr> last_accessed := now, access_count := access_count r + 1 \<rparr> else r"])


lemma scoresKept_updateMemory: "scoresKept s \<Longrightarrow> scoresKept (snd (updateMemory now i u s))"
proof -
  assume k: "scoresKept s"
  obtain m1 s1 where g: "getMemory now i s = (m1, s1)" by (cases "getMemory now i s")
  have k1: "scoresKept s1" using scoresKept_getMemory [OF k, of now i] g by simp
  show ?thesis
  proof (cases m1)
    case None
    then show ?thesis using g k1 by (simp add: updateMemory_def)
  next
    case (Some existing)
    let ?s2 = "s1\<lparr> memories := map (\<lambda>r. if row_id r = i then applyUpdates now u r else r)
                                 (memories s1) \<rparr>"
    have "scoresKept ?s2"
      by (rule scoresKept_map [OF k1, where f = "\<lambda>r. if row_id r = i then applyUpdates now u r else r"])
         (simp_all add: applyUpdates_def)
    then have "scoresKept (snd (getMemory now i ?s2))" by (rule scoresKept_getMemory)
    then show ?thesis using Some g by (simp add: updateMemory_def)
  qed
qed

lemma decayLoop_confidence:
  "map row_confidence (memories (fst (decayLoop now sel (s, u, a)))) = map row_confidence (memories s)"
  by (induction sel arbitrary: s u a) (auto simp: Let_def setRelevance_def comp_def cong: map_cong)

lemma scoresKept_applyDecay: "scoresKept s \<Longrightarrow> scoresKept (fst (applyDecay now s))"
proof -
  assume k: "scoresKept s"
  have "map row_confidence (memories (fst (applyDecay now s))) = map row_confidence (memories s)"
    unfolding applyDecay_def by (rule decayLoop_confidence)
  then have "row_confidence ` set (memories (fst (applyDecay now s))) = row_confidence ` set (memories s)"
    by (metis set_map)
  then show ?thesis using k unfolding scoresKept_def by (metis (no_types, lifting) imageE imageI)
qed

lemma scoresKept_corroborationLoop:
  "scoresKept s \<Longrightarrow> \<forall>m \<in> set cands. goodScore (score (confidence m)) \<Longrightarrow>
   scoresKept (fst (corroborationLoop now newMemory cands (s, results)))"
proof (induction cands arbitrary: s results)
  case Nil
  then show ?case by simp
next
  case (Cons c cands)
  have rest: "\<forall>m \<in> set cands. goodScore (score (confidence m))" using Cons.prems(2) by simp
  show ?case
  proof (cases "mem_id c \<noteq> mem_id newMemory \<and> isIndependentSource newMemory c
                 \<and> contentSimilarity (content newMemory) (content c) > 0.5")
    case False
    then show ?thesis using Cons.IH [OF Cons.prems(1) rest] by auto
  next
    case True
    let ?boost = "calculateBoost (contentSimilarity (content newMemory) (content c)) newMemory c"
    let ?conf = "(confidence c)
                  \<lparr> score := round2 (min 1 (score (confidence c) + ?boost)),
                    corroborations := corroborations (confidence c) + 1,
                    lastVerified := Some now,
                    basis := basis (confidence c) @
                      [''+'' @ int_str (Math_round (?boost * 100)) @ ''% corroborated by ''
                         @ SourceType_str (atype (attribution newMemory)) @ '' source''] \<rparr>"
    have "goodScore (score ?conf)" by (simp add: goodScore_round2)
    then have "scoresKept (updateConfidence now (mem_id c) ?conf s)"
      by (rule scoresKept_updateConfidence [OF Cons.prems(1)])
    from Cons.IH [OF this rest] show ?thesis using True by (simp add: Let_def)
  qed
qed

lemma scoresKept_checkCorroboration:
  assumes "scoresKept s"
  shows "scoresKept (snd (checkCorroboration now newMemory s))"
  using scoresKept_corroborationLoop [OF assms, of "findRelated newMemory s" now newMemory "[]"]
    findRelated_good [OF assms]
  by (cases "corroborationLoop now newMemory (findRelated newMemory s) (s, [])")
     (simp add: checkCorroboration_def)

lemma scoresKept_markContradiction:
  "scoresKept s \<Longrightarrow> goodScore (score (confidence a)) \<Longrightarrow> scoresKept (markContradiction now a b s)"
  unfolding markContradiction_def by (rule scoresKept_updateConfidence) simp_all

lemma scoresKept_contradictionInner:
  "scoresKept s \<Longrightarrow> goodScore (score (confidence a)) \<Longrightarrow>
   \<forall>m \<in> set bs. goodScore (score (confidence m)) \<Longrightarrow>
   scoresKept (fst (contradictionInner now a bs (s, found)))"
proof (induction bs arbitrary: s found)
  case Nil
  then show ?case by simp
next
  case (Cons b bs)
  have rest: "\<forall>m \<in> set bs. goodScore (score (confidence m))" and gb: "goodScore (score (confidence b))"
    using Cons.prems(3) by simp_all
  have k2: "scoresKept (markContradiction now b a (markContradiction now a b s))"
    by (intro scoresKept_markContradiction Cons.prems(1,2) gb)
  show ?case
    using Cons.IH [OF Cons.prems(1,2) rest] Cons.IH [OF k2 Cons.prems(2) rest]
    by (auto split: option.splits)
qed

lemma scoresKept_contradictionOuter:
  "scoresKept s \<Longrightarrow> \<forall>m \<in> set ms. goodScore (score (confidence m)) \<Longrightarrow>
   scoresKept (fst (contradictionOuter now limit ms (s, found)))"
proof (induction ms arbitrary: s found)
  case Nil
  then show ?case by simp
next
  case (Cons a ms)
  have rest: "\<forall>m \<in> set ms. goodScore (score (confidence m))" and ga: "goodScore (score (confidence a))"
    using Cons.prems(2) by simp_all
  obtain s1 f1 where i: "contradictionInner now a ms (s, found) = (s1, f1)"
    by (cases "contradictionInner now a ms (s, found)")
  have k1: "scoresKept s1"
    using scoresKept_contradictionInner [OF Cons.prems(1) ga rest, of now found] i by simp
  show ?case
    using i Cons.prems(1) Cons.IH [OF k1 rest] by auto
qed

lemma scoresKept_findContradictions:
  assumes "scoresKept s"
  shows "scoresKept (snd (findContradictions now limit s))"
  using scoresKept_contradictionOuter [OF assms, of "getAllMemories 200 s" now limit "[]"]
    getAllMemories_good [OF assms]
  by (cases "contradictionOuter now limit (getAllMemories 200 s) (s, [])")
     (simp add: findContradictions_def)

lemma scoresKept_verifyMemory:
  assumes "scoresKept s"
  shows "scoresKept (snd (verifyMemory now i s))"
proof -
  obtain m1 s1 where g: "getMemory now i s = (m1, s1)" by (cases "getMemory now i s")
  have k1: "scoresKept s1" using scoresKept_getMemory [OF assms, of now i] g by simp
  show ?thesis
  proof (cases m1)
    case None
    then show ?thesis using g k1 by (simp add: verifyMemory_def)
  next
    case (Some mem)
    obtain n ev where l: "verifyLoop i mem (findRelated mem s1) (0, []) = (n, ev)"
      by (cases "verifyLoop i mem (findRelated mem s1) (0, [])")
    show ?thesis
      using Some g l k1
      by (auto simp: verifyMemory_def Let_def goodScore_round2
               intro!: scoresKept_updateConfidence)
  qed
qed

lemma linkEntities_memories:
  "linkEntities now mid es s = Inr s' \<Longrightarrow> memories s' = memories s"
proof (induction es arbitrary: s)
  case Nil
  then show ?case by simp
next
  case (Cons e es)
  from Cons.prems obtain s1 where
    i: "insertLink mid e (autoCreateEntity now e s) = Inr s1"
    and r: "linkEntities now mid es (updateCount e s1) = Inr s'"
    by (auto split: sum.splits)
  have "memories s1 = memories s"
    using i by (auto simp: insertLink_def autoCreate_frame split: if_splits)
  with Cons.IH [OF r] show ?case by (simp add: updateCount_frame)
qed

lemma scoresKept_createMemory:
  assumes "scoresKept s" "createMemory now uid input s = Inr (m, s')"
  shows "scoresKept s'"
proof -
  let ?row = "\<lparr> row_id = uid, row_content = in_content input, row_summary = in_summary input,
      row_attribution = attribution (buildMemory now uid input),
      row_confidence = computeInitialConfidence input,
      row_category = in_category input, row_tags = tags (buildMemory now uid input),
      row_created = now, row_updated = now, last_accessed = now, access_count = 0,
      decay_rate = decayRate (buildMemory now uid input), relevance_score = 1,
      row_pinned = pinned (buildMemory now uid input), embedding = None \<rparr>"
  from assms(2) obtain s1 where i: "insertMemory (buildMemory now uid input) s = Inr s1"
    and m: "memories s' = memories s1"
    by (auto simp: createMemory_def Let_def split: sum.splits option.splits if_splits
             dest: linkEntities_memories)
  from i have "memories s1 = memories s @ [?row]"
    by (auto simp: insertMemory_def buildMemory_def split: if_splits)
  then show ?thesis
    using assms(1) m unfolding scoresKept_def by (auto simp: goodScore_initial)
qed

lemma step_scoresKept: "scoresKept s \<Longrightarrow> scoresKept (step op s)"
proof (cases op)
  case (OpCreateMemory now uid input)
  assume "scoresKept s"
  then show ?thesis
    using OpCreateMemory scoresKept_createMemory [of s now uid input]
    by (cases "createMemory now uid input s") auto
qed (simp_all add: scoresKept_getMemory scoresKept_updateMemory scoresKept_applyDecay
      scoresKept_checkCorroboration scoresKept_findContradictions scoresKept_verifyMemory)

lemma run_scoresKept: "scoresKept s \<Longrightarrow> scoresKept (run ops s)"
  by (induction ops arbitrary: s) (simp_all add: step_scoresKept)

lemma reachable_scores:
  "r \<in> set (memories (run ops emptyStore)) \<Longrightarrow>
   hundredths (score (row_confidence r)) \<and> score (row_confidence r) \<le> 1"
  using run_scoresKept [of emptyStore ops]
  by (simp add: scoresKept_def goodScore_def emptyStore_def)


lemma decayLoop_ids:
  "map row_id (memories (fst (decayLoop now sel (s, u, a)))) = map row_id (memories s)"
  by (induction sel arbitrary: s u a) (auto simp: Let_def setRelevance_ids)

lemma ids_getMemory:
  "map row_id (memories (snd (getMemory now i s))) = map row_id (memories s)"
  using keeps_getMemory [of s now i] unfolding keeps_def by (rule rowKept_ids)

lemma ids_updateMemory:
  "map row_id (memories (snd (updateMemory now i u s))) = map row_id (memories s)"
proof -
  obtain m1 s1 where g: "getMemory now i s = (m1, s1)" by (cases "getMemory now i s")
  have i1: "map row_id (memories s1) = map row_id (memories s)"
    using ids_getMemory [of now i s] g by simp
  show ?thesis
  proof (cases m1)
    case None
    then show ?thesis using g i1 by (simp add: updateMemory_def)
  next
    case (Some existing)
    let ?s2 = "s1\<lparr> memories := map (\<lambda>r. if row_id r = i then applyUpdates now u r else r)
                                 (memories s1) \<rparr>"
    have "map row_id (memories ?s2) = map row_id (memories s1)"
      by (simp add: applyUpdates_def comp_def cong: map_cong)
    then show ?thesis
      using Some g i1 ids_getMemory [of now i ?s2] by (simp add: updateMemory_def)
  qed
qed

lemma step_uniqueIds: "uniqueIds s \<Longrightarrow> uniqueIds (step op s)"
proof (cases op)
  case (OpCreateMemory now uid input)
  assume u: "uniqueIds s"
  show ?thesis
  proof (cases "getRow s uid = None")
    case True
    from createMemory_ok [OF True, of now input]
    obtain s' row where c: "createMemory now uid input s = Inr (buildMemory now uid input, s')"
      and m: "memories s' = memories s @ [row]" and rid: "row_id row = uid"
      by blast
    have fresh: "uid \<notin> row_id ` set (memories s)"
      using True by (auto simp: getRow_def find_None_iff)
    have "step op s = s'" using OpCreateMemory c by simp
    then show ?thesis using u m rid fresh by (auto simp: uniqueIds_def)
  next
    case False
    then have "step op s = s" using OpCreateMemory by (simp add: createMemory_dup)
    then show ?thesis using u by simp
  qed
next
  case (OpGetMemory now i)
  assume "uniqueIds s"
  then show ?thesis using OpGetMemory by (simp add: uniqueIds_def ids_getMemory)
next
  case (OpUpdateMemory now i u)
  assume "uniqueIds s"
  then show ?thesis using OpUpdateMemory by (simp add: uniqueIds_def ids_updateMemory)
next
  case (OpApplyDecay now)
  assume "uniqueIds s"
  then show ?thesis using OpApplyDecay by (simp add: uniqueIds_def applyDecay_def decayLoop_ids)
next
  case (OpCheckCorroboration now newMemory)
  assume "uniqueIds s"
  then show ?thesis
    using OpCheckCorroboration keeps_uniqueIds [OF keeps_checkCorroboration] by simp
next
  case (OpFindContradictions now limit)
  assume "uniqueIds s"
  then show ?thesis
    using OpFindContradictions keeps_uniqueIds [OF keeps_findContradictions] by simp
next
  case (OpVerifyMemory now i)
  assume "uniqueIds s"
  then show ?thesis
    using OpVerifyMemory keeps_uniqueIds [OF keeps_verifyMemory] by simp
qed

lemma run_uniqueIds: "uniqueIds s \<Longrightarrow> uniqueIds (run ops s)"
  by (induction ops arbitrary: s) (simp_all add: step_uniqueIds)

lemma reachable_uniqueIds: "uniqueIds (run ops emptyStore)"
  by (rule run_uniqueIds) (simp add: uniqueIds_def emptyStore_def)

subsection \<open>findContradictions\<close>

lemma lower_a: "toLowerCase ''backup is enabled'' = ''backup is enabled''"
  by (simp add: toLowerCase_def toLowerChar_def)

lemma lower_b: "toLowerCase ''backup is not enabled'' = ''backup is not enabled''"
  by (simp add: toLowerCase_def toLowerChar_def)

lemma sim_ab: "contentSimilarity ''backup is enabled'' ''backup is not enabled'' = 1"
  by (simp add: contentSimilarity_def lower_a lower_b split_def isSpace_def)

lemma detect_ab:
  "content a = ''backup is enabled'' \<Longrightarrow> content b = ''backup is not enabled'' \<Longrightarrow>
   detectContradiction a b
     = Some (''Potential negation: '' @ [CHR 0x22] @ ''is'' @ [CHR 0x22] @ '' vs ''
             @ [CHR 0x22] @ ''is not'' @ [CHR 0x22] @ '' in related memories'')"
  by (simp add: detectContradiction_def negationPairs_def Let_def lower_a lower_b sim_ab)

text \<open>
  Claim C4 (the code departs from it). The limit is tested only when the outer loop
  moves to the next fact; the inner loop keeps adding pairs. With limit 1 and a fact
  that contradicts two others, findContradictions returns two pairs.
\<close>

theorem C4_limit_overshoot:
  "length (fst (findContradictions 10 1 serviceStore)) = 2"
  by (simp add: findContradictions_def getAllMemories_def serviceStore_def serviceRow_def
       orderByCreated_def rowToMemory_def detect_ab sim_ab
       markContradiction_def updateConfidence_def memoryRef_def)

subsection \<open>verifyMemory\<close>

lemma verifyLoop_counts:
  "verifyLoop i mem rels (n, ev) = (n', ev') \<Longrightarrow>
   n' = n + length (filter (\<lambda>rel. mem_id rel \<noteq> i
                              \<and> contentSimilarity (content mem) (content rel) > 0.4) rels)
   \<and> length ev' = length ev + length (filter (\<lambda>rel. mem_id rel \<noteq> i
                              \<and> contentSimilarity (content mem) (content rel) > 0.4) rels)"
proof (induction rels arbitrary: n ev)
  case Nil
  then show ?case by simp
next
  case (Cons rel rels)
  show ?case
  proof (cases "mem_id rel = i")
    case True
    then show ?thesis using Cons.IH [of n ev] Cons.prems by simp
  next
    case False
    show ?thesis
    proof (cases "contentSimilarity (content mem) (content rel) > 0.4")
      case True
      with False Cons.prems Cons.IH [of "n + 1"] show ?thesis
        by (fastforce simp del: append_assoc)
    next
      case False
      with \<open>mem_id rel \<noteq> i\<close> Cons.prems Cons.IH [of n ev] show ?thesis by simp
    qed
  qed
qed

lemma round2_hundredths: "hundredths x \<Longrightarrow> round2 x = x"
  unfolding hundredths_def round2_def Math_round_def by auto

lemma hundredths_raise:
  assumes "hundredths x"
  shows "hundredths (min 1 (x + real n * 0.05))"
proof -
  from assms obtain k :: int where k: "x = real_of_int k / 100" unfolding hundredths_def by blast
  have a: "x + real n * 0.05 = real_of_int (k + 5 * int n) / 100" using k by simp
  have b: "(1::real) = real_of_int 100 / 100" by simp
  show ?thesis
    unfolding hundredths_def min_def using a b by metis
qed

lemma getMemory_result:
  "getRow s i = Some row \<Longrightarrow> fst (getMemory now i s) = Some (rowToMemory s row)"
  by (simp add: getMemory_def)

lemma getMemory_None:
  "getRow s i = None \<Longrightarrow> getMemory now i s = (None, s)"
  by (simp add: getMemory_def)

lemma getRow_updateConfidence:
  "getRow (updateConfidence now i c s) i =
     map_option (\<lambda>r. r\<lparr> row_confidence := c, row_updated := now \<rparr>) (getRow s i)"
proof -
  have "getRow (updateConfidence now i c s) i =
        map_option (\<lambda>r. if row_id r = i then r\<lparr> row_confidence := c, row_updated := now \<rparr> else r)
                   (getRow s i)"
    unfolding getRow_def updateConfidence_def by (simp add: find_map_keep)
  moreover have "\<And>r. getRow s i = Some r \<Longrightarrow> row_id r = i"
    unfolding getRow_def by (auto simp: find_Some_iff)
  ultimately show ?thesis by (cases "getRow s i") auto
qed

lemma getRow_getMemory:
  assumes "getRow s i = Some row"
  shows "getRow (snd (getMemory now i s)) i \<noteq> None"
proof -
  have "getRow (snd (getMemory now i s)) i =
        map_option (\<lambda>r. if row_id r = i
                          then r\<lparr> last_accessed := now, access_count := access_count r + 1 \<rparr>
                          else r) (getRow s i)"
    using assms unfolding getMemory_store getRow_def by (simp add: find_map_keep)
  then show ?thesis using assms by simp
qed

lemma verifyMemory_found:
  fixes now :: int and s :: Store and i :: string and row :: MemoryRow
  assumes "getRow s i = Some row"
  defines "mem \<equiv> rowToMemory s row"
  defines "s1 \<equiv> snd (getMemory now i s)"
  defines "n \<equiv> length (supportingCandidates i mem s1)"
  defines "newConf \<equiv> (if n = 0 then score (row_confidence row)
                        else min 1 (score (row_confidence row) + real n * 0.05))"
  shows "verified (fst (verifyMemory now i s)) = (1 \<le> n)"
    and "v_newConfidence (fst (verifyMemory now i s)) = round2 newConf"
    and "length (evidence (fst (verifyMemory now i s))) = max 1 n"
    and "1 \<le> n \<Longrightarrow> map_option (\<lambda>r. score (row_confidence r)) (getRow (snd (verifyMemory now i s)) i)
                        = Some (round2 newConf)"
    and "n = 0 \<Longrightarrow> snd (verifyMemory now i s) = s1"
proof -
  have g: "getMemory now i s = (Some mem, s1)"
    using assms(1) unfolding mem_def s1_def by (simp add: getMemory_def)
  obtain n' ev where l: "verifyLoop i mem (findRelated mem s1) (0, []) = (n', ev)"
    by (cases "verifyLoop i mem (findRelated mem s1) (0, [])")
  from verifyLoop_counts [OF l] have n': "n' = n" and ev: "length ev = n"
    unfolding n_def supportingCandidates_def by simp_all
  have sc: "score (confidence mem) = score (row_confidence row)"
    unfolding mem_def by (simp add: rowToMemory_def)
  show "verified (fst (verifyMemory now i s)) = (1 \<le> n)"
    using g l n' by (auto simp: verifyMemory_def Let_def)
  show "v_newConfidence (fst (verifyMemory now i s)) = round2 newConf"
    using g l n' sc by (simp add: verifyMemory_def Let_def newConf_def)
  show "length (evidence (fst (verifyMemory now i s))) = max 1 n"
    using g l ev by (cases ev) (auto simp: verifyMemory_def Let_def)
  show "n = 0 \<Longrightarrow> snd (verifyMemory now i s) = s1"
    using g l n' by (simp add: verifyMemory_def Let_def)
  show "map_option (\<lambda>r. score (row_confidence r)) (getRow (snd (verifyMemory now i s)) i)
                        = Some (round2 newConf)" if "1 \<le> n"
  proof -
    from getRow_getMemory [OF assms(1), of now]
    obtain r1 where r1: "getRow s1 i = Some r1" unfolding s1_def by auto
    show ?thesis
      using g l n' sc that r1
      by (simp add: verifyMemory_def Let_def newConf_def getRow_updateConfidence)
  qed
qed


lemma service_supporting:
  "map mem_id (supportingCandidates ''a''
      (rowToMemory serviceStore (serviceRow ''a'' ''backup is enabled'' 3))
      (snd (getMemory 10 ''a'' serviceStore))) = [''b'', ''c'']"
  by (simp add: supportingCandidates_def findRelated_def getMemory_store getRow_def
      serviceStore_def serviceRow_def rowToMemory_def getEntityMemories_def
      orderByRelevanceCreated_def searchByText_def split_def isSpace_def
      toLowerChar_def Let_def sim_ab)

text \<open>
  Claim C9. On an unknown id verifyMemory returns verified = false, the evidence
  "Memory not found" and newConfidence 0, and the store is unchanged. For an existing
  fact, verified holds exactly when there is at least one supporting candidate (a
  related fact other than itself with content similarity above 0.4); the returned
  score is the stored score plus 0.05 for each supporting candidate, capped at 1 and
  rounded to two decimals, and the rounding changes nothing for a stored score of two
  decimals that is at most 1. When there is a supporting candidate the raised score
  is written to the fact.
\<close>

theorem C9_verifyMemory:
  "(getRow s i = None \<longrightarrow>
      verifyMemory now i s =
        (\<lparr> verified = False, evidence = [''Memory not found''], v_newConfidence = 0 \<rparr>, s))
   \<and> (\<forall>row. getRow s i = Some row \<longrightarrow>
        verified (fst (verifyMemory now i s))
          = (1 \<le> length (supportingCandidates i (rowToMemory s row) (snd (getMemory now i s))))
        \<and> v_newConfidence (fst (verifyMemory now i s))
          = round2 (if length (supportingCandidates i (rowToMemory s row) (snd (getMemory now i s))) = 0
                    then score (row_confidence row)
                    else min 1 (score (row_confidence row)
                                + real (length (supportingCandidates i (rowToMemory s row)
                                                  (snd (getMemory now i s)))) * 0.05))
        \<and> (hundredths (score (row_confidence row)) \<and> score (row_confidence row) \<le> 1 \<longrightarrow>
             v_newConfidence (fst (verifyMemory now i s))
               = min 1 (score (row_confidence row)
                        + real (length (supportingCandidates i (rowToMemory s row)
                                          (snd (getMemory now i s)))) * 0.05)
             \<and> (1 \<le> length (supportingCandidates i (rowToMemory s row) (snd (getMemory now i s))) \<longrightarrow>
                  map_option (\<lambda>r. score (row_confidence r)) (getRow (snd (verifyMemory now i s)) i)
                    = Some (min 1 (score (row_confidence row)
                        + real (length (supportingCandidates i (rowToMemory s row)
                                          (snd (getMemory now i s)))) * 0.05)))))"
proof (intro conjI allI impI)
  assume "getRow s i = None"
  then show "verifyMemory now i s =
        (\<lparr> verified = False, evidence = [''Memory not found''], v_newConfidence = 0 \<rparr>, s)"
    by (simp add: verifyMemory_def getMemory_None)
next
  fix row assume r: "getRow s i = Some row"
  let ?n = "length (supportingCandidates i (rowToMemory s row) (snd (getMemory now i s)))"
  let ?sc = "score (row_confidence row)"
  show "verified (fst (verifyMemory now i s)) = (1 \<le> ?n)"
    by (rule verifyMemory_found(1) [OF r])
  show rnd: "v_newConfidence (fst (verifyMemory now i s))
          = round2 (if ?n = 0 then ?sc else min 1 (?sc + real ?n * 0.05))"
    by (rule verifyMemory_found(2) [OF r])
  assume h: "hundredths ?sc \<and> ?sc \<le> 1"
  have eq: "round2 (if ?n = 0 then ?sc else min 1 (?sc + real ?n * 0.05))
            = min 1 (?sc + real ?n * 0.05)"
  proof (cases "?n = 0")
    case True
    then show ?thesis using h by (simp add: round2_hundredths)
  next
    case False
    have "hundredths (min 1 (?sc + real ?n * 0.05))"
      using h by (intro hundredths_raise) simp
    then have "round2 (min 1 (?sc + real ?n * 0.05)) = min 1 (?sc + real ?n * 0.05)"
      by (rule round2_hundredths)
    then show ?thesis using False by (simp only: if_False)
  qed
  show "v_newConfidence (fst (verifyMemory now i s)) = min 1 (?sc + real ?n * 0.05)"
    using rnd eq by simp
  assume "1 \<le> ?n"
  from verifyMemory_found(4) [OF r this]
  show "map_option (\<lambda>r. score (row_confidence r)) (getRow (snd (verifyMemory now i s)) i)
                    = Some (min 1 (?sc + real ?n * 0.05))"
    using eq by simp
qed

theorem C9_verifyMemory_witness:
  "getRow serviceStore ''zz'' = None
   \<and> verifyMemory 10 ''zz'' serviceStore =
        (\<lparr> verified = False, evidence = [''Memory not found''], v_newConfidence = 0 \<rparr>, serviceStore)
   \<and> getRow serviceStore ''a'' = Some (serviceRow ''a'' ''backup is enabled'' 3)
   \<and> hundredths (score (row_confidence (serviceRow ''a'' ''backup is enabled'' 3)))
   \<and> score (row_confidence (serviceRow ''a'' ''backup is enabled'' 3)) = 0.8
   \<and> verified (fst (verifyMemory 10 ''a'' serviceStore))
   \<and> v_newConfidence (fst (verifyMemory 10 ''a'' serviceStore)) = 0.9
   \<and> map_option (\<lambda>r. score (row_confidence r)) (getRow (snd (verifyMemory 10 ''a'' serviceStore)) ''a'')
        = Some 0.9"
proof -
  have z: "getRow serviceStore ''zz'' = None"
    by (simp add: getRow_def serviceStore_def serviceRow_def)
  have a: "getRow serviceStore ''a'' = Some (serviceRow ''a'' ''backup is enabled'' 3)"
    by (simp add: getRow_def serviceStore_def serviceRow_def)
  have h: "hundredths (score (row_confidence (serviceRow ''a'' ''backup is enabled'' 3)))"
    unfolding hundredths_def by (rule exI [of _ 80]) (simp add: serviceRow_def)
  have sc: "score (row_confidence (serviceRow ''a'' ''backup is enabled'' 3)) = 0.8"
    by (simp add: serviceRow_def)
  have n: "length (supportingCandidates ''a''
      (rowToMemory serviceStore (serviceRow ''a'' ''backup is enabled'' 3))
      (snd (getMemory 10 ''a'' serviceStore))) = 2"
    using service_supporting by (metis length_map length_Cons list.size(3) numeral_2_eq_2)
  show ?thesis
    using C9_verifyMemory [of serviceStore "''zz''" 10] C9_verifyMemory [of serviceStore "''a''" 10]
      z a h n
    by (simp add: sc)
qed

subsection \<open>quickRecall\<close>

lemma stale_search:
  "searchByText ''credential'' n staleStore
     = (if n = 0 then [] else [rowToMemory staleStore staleRow])"
  by (cases n) (simp_all add: searchByText_def staleStore_def staleRow_def
      orderByRelevanceCreated_def toLowerChar_def Let_def)

lemma stale_match:
  "textMatchScore ''credential'' (rowToMemory staleStore staleRow) = 1"
  by (simp add: textMatchScore_def rowToMemory_def staleRow_def toLowerCase_def
      toLowerChar_def split_def isSpace_def Let_def)

lemma credential_match:
  "content m = ''credential stealer'' \<Longrightarrow> summary m = None \<Longrightarrow>
   textMatchScore ''credential'' m = 1"
  by (simp add: textMatchScore_def toLowerCase_def toLowerChar_def split_def isSpace_def Let_def)

text \<open>
  Claim C3, as stated, fails: quickRecall has no filtering step. A fact whose
  relevance has decayed to 0.05 is returned for a matching query, with relevance
  below 0.1 and final score 0.0275, below the noise floor 0.15.
\<close>

theorem C3_counterexample:
  "quickRecall ''credential'' 5 staleStore \<noteq> []
   \<and> relevanceScore (memory (hd (quickRecall ''credential'' 5 staleStore))) < 0.1
   \<and> finalScore (hd (quickRecall ''credential'' 5 staleStore)) < 0.15"
  by (simp add: quickRecall_def searchByTextLimit_def slice0_def stale_search stale_match
      sortByFinalScore_def Let_def)
     (simp add: rowToMemory_def staleRow_def)

lemma sorted_desc_nth:
  assumes "sorted (map (\<lambda>r. - f r) xs)" "i \<le> j" "j < length xs"
  shows "(f (xs ! j) :: real) \<le> f (xs ! i)"
proof -
  have "map (\<lambda>r. - f r) xs ! i \<le> map (\<lambda>r. - f r) xs ! j"
    using assms by (intro sorted_nth_mono) auto
  then show ?thesis using assms by simp
qed

text \<open>
  Claim C3, amended. quickRecall applies none of the filters of full recall. Its
  result is a prefix of a ranking of all the hits of the text search, which is run
  with the limit \<open>3 * limit\<close>: the ranking holds every hit once (as a multiset of
  memories), each with matchScore the lexical score and finalScore the product of
  matchScore, confidence score and relevance, and it is ordered by finalScore,
  highest first. For a limit that is not negative the result is the first
  \<open>limit\<close> entries of the ranking; for a negative limit \<open>-k\<close> the
  search is unbounded and the result is the ranking without its last \<open>k\<close> entries.
\<close>

theorem C3_quickRecall_amended:
  "\<exists>ranked.
     mset (map memory ranked) = mset (searchByTextLimit text (limit * 3) s)
     \<and> (\<forall>r \<in> set ranked.
           matchScore r = textMatchScore text (memory r)
           \<and> finalScore r = matchScore r * score (confidence (memory r)) * relevanceScore (memory r))
     \<and> (\<forall>i j. i \<le> j \<and> j < length ranked \<longrightarrow> finalScore (ranked ! j) \<le> finalScore (ranked ! i))
     \<and> quickRecall text limit s =
         (if 0 \<le> limit then take (nat limit) ranked
          else take (length ranked - nat (- limit)) ranked)"
proof -
  let ?hits = "searchByTextLimit text (limit * 3) s"
  let ?scored = "map (\<lambda>mem. \<lparr> memory = mem, matchScore = textMatchScore text mem,
                           finalScore = textMatchScore text mem * score (confidence mem)
                                        * relevanceScore mem \<rparr>) ?hits"
  let ?ranked = "sortByFinalScore ?scored"
  have m: "mset (map memory ?ranked) = mset ?hits"
  proof -
    have a: "mset ?ranked = mset ?scored" by (simp add: sortByFinalScore_def)
    have b: "map memory ?scored = ?hits" by (simp add: comp_def)
    have "mset (map memory ?ranked) = mset (map memory ?scored)"
      unfolding mset_map a ..
    then show ?thesis by (simp only: b)
  qed
  have sc: "\<forall>r \<in> set ?ranked.
           matchScore r = textMatchScore text (memory r)
           \<and> finalScore r = matchScore r * score (confidence (memory r)) * relevanceScore (memory r)"
    by (auto simp: sortByFinalScore_def)
  have srt: "sorted (map (\<lambda>r. - finalScore r) ?ranked)"
    by (simp add: sortByFinalScore_def)
  have ord: "\<forall>i j. i \<le> j \<and> j < length ?ranked \<longrightarrow> finalScore (?ranked ! j) \<le> finalScore (?ranked ! i)"
  proof (intro allI impI)
    fix i j assume h: "i \<le> j \<and> j < length ?ranked"
    from h have "i \<le> j" and "j < length ?ranked" by (rule conjunct1, rule conjunct2)
    then show "finalScore (?ranked ! j) \<le> finalScore (?ranked ! i)"
      by (rule sorted_desc_nth [OF srt])
  qed
  have q: "quickRecall text limit s =
         (if 0 \<le> limit then take (nat limit) ?ranked
          else take (length ?ranked - nat (- limit)) ?ranked)"
    unfolding quickRecall_def slice0_def Let_def
    by (cases "0 \<le> limit") simp_all
  show ?thesis
    apply (rule exI [of _ ?ranked])
    apply (intro conjI)
       apply (rule m)
      apply (rule sc)
     apply (rule ord)
    apply (rule q)
    done
qed

lemma rank_search:
  "searchByTextLimit ''credential'' 3 rankStore
     = [rowToMemory rankStore (credentialRow ''A'' 0.4 1),
        rowToMemory rankStore (credentialRow ''B'' 0.95 0.9)]"
  "searchByTextLimit ''credential'' (- 3) rankStore
     = [rowToMemory rankStore (credentialRow ''A'' 0.4 1),
        rowToMemory rankStore (credentialRow ''B'' 0.95 0.9)]"
  by (simp_all add: searchByTextLimit_def searchByText_def rankStore_def credentialRow_def
      staleRow_def orderByRelevanceCreated_def toLowerChar_def Let_def)

text \<open>The only ranking of the two hits: the second hit first.\<close>

lemma rank_two:
  assumes ms: "mset (map memory ranked)
                 = mset [rowToMemory rankStore (credentialRow ''A'' 0.4 1),
                         rowToMemory rankStore (credentialRow ''B'' 0.95 0.9)]"
    and sc: "\<forall>r \<in> set ranked.
           matchScore r = textMatchScore ''credential'' (memory r)
           \<and> finalScore r = matchScore r * score (confidence (memory r)) * relevanceScore (memory r)"
    and ord: "\<forall>i j. i \<le> j \<and> j < length ranked \<longrightarrow> finalScore (ranked ! j) \<le> finalScore (ranked ! i)"
  shows "take 1 ranked = [\<lparr> memory = rowToMemory rankStore (credentialRow ''B'' 0.95 0.9),
                            matchScore = 1, finalScore = 0.855 \<rparr>]"
proof -
  let ?A = "rowToMemory rankStore (credentialRow ''A'' 0.4 1)"
  let ?B = "rowToMemory rankStore (credentialRow ''B'' 0.95 0.9)"
  have tA: "textMatchScore ''credential'' ?A = 1"
    by (rule credential_match) (simp_all add: rowToMemory_def credentialRow_def staleRow_def)
  have tB: "textMatchScore ''credential'' ?B = 1"
    by (rule credential_match) (simp_all add: rowToMemory_def credentialRow_def staleRow_def)
  have "size (mset (map memory ranked)) = 2" unfolding ms by simp
  then have "length ranked = 2" by simp
  then obtain x y where r: "ranked = [x, y]"
    by (auto simp: numeral_2_eq_2 length_Suc_conv)
  from ms r have "{#memory x, memory y#} = {#?A, ?B#}" by simp
  then have cases: "(memory x = ?A \<and> memory y = ?B) \<or> (memory x = ?B \<and> memory y = ?A)"
    by (auto simp: add_eq_conv_ex)
  from ord [rule_format, of 0 1] r have le: "finalScore y \<le> finalScore x" by simp
  from sc r have fx: "finalScore x = textMatchScore ''credential'' (memory x)
                        * (score (confidence (memory x)) * relevanceScore (memory x))"
    and mxs: "matchScore x = textMatchScore ''credential'' (memory x)"
    and fy: "finalScore y = textMatchScore ''credential'' (memory y)
                        * (score (confidence (memory y)) * relevanceScore (memory y))"
    by (simp_all add: mult.assoc)
  have sA: "score (confidence ?A) * relevanceScore ?A = 0.4"
    and sB: "score (confidence ?B) * relevanceScore ?B = 0.855"
    by (simp_all add: rowToMemory_def credentialRow_def staleRow_def)
  have mx: "memory x = ?B"
  proof (rule ccontr)
    assume "memory x \<noteq> ?B"
    with cases have xa: "memory x = ?A" and yb: "memory y = ?B" by auto
    have "finalScore x = 1 * 0.4" unfolding fx xa tA sA ..
    moreover have "finalScore y = 1 * 0.855" unfolding fy yb tB sB ..
    ultimately show False using le by simp
  qed
  have "finalScore x = 1 * 0.855" unfolding fx mx tB sB ..
  moreover have "matchScore x = 1" unfolding mxs mx tB ..
  ultimately have "x = \<lparr> memory = ?B, matchScore = 1, finalScore = 0.855 \<rparr>"
    using mx by (cases x) simp
  then show ?thesis using r by simp
qed

theorem C3_quickRecall_amended_witness:
  "searchByTextLimit ''credential'' (1 * 3) rankStore
     = [rowToMemory rankStore (credentialRow ''A'' 0.4 1),
        rowToMemory rankStore (credentialRow ''B'' 0.95 0.9)]
   \<and> quickRecall ''credential'' 1 rankStore
     = [\<lparr> memory = rowToMemory rankStore (credentialRow ''B'' 0.95 0.9),
          matchScore = 1, finalScore = 0.855 \<rparr>]
   \<and> quickRecall ''credential'' (- 1) rankStore
     = [\<lparr> memory = rowToMemory rankStore (credentialRow ''B'' 0.95 0.9),
          matchScore = 1, finalScore = 0.855 \<rparr>]"
proof -
  from C3_quickRecall_amended [of "''credential''" 1 rankStore]
  obtain ranked where all:
    "mset (map memory ranked) = mset (searchByTextLimit ''credential'' (1 * 3) rankStore)
     \<and> (\<forall>r \<in> set ranked.
           matchScore r = textMatchScore ''credential'' (memory r)
           \<and> finalScore r = matchScore r * score (confidence (memory r)) * relevanceScore (memory r))
     \<and> (\<forall>i j. i \<le> j \<and> j < length ranked \<longrightarrow> finalScore (ranked ! j) \<le> finalScore (ranked ! i))
     \<and> quickRecall ''credential'' 1 rankStore =
         (if (0::int) \<le> 1 then take (nat 1) ranked
          else take (length ranked - nat (- 1)) ranked)"
    by (rule exE)
  from all have ms: "mset (map memory ranked)
                 = mset [rowToMemory rankStore (credentialRow ''A'' 0.4 1),
                         rowToMemory rankStore (credentialRow ''B'' 0.95 0.9)]"
    using rank_search(1) by simp
  note sc = all [THEN conjunct2, THEN conjunct1]
  note ord = all [THEN conjunct2, THEN conjunct2, THEN conjunct1]
  from all have q: "quickRecall ''credential'' 1 rankStore = take 1 ranked" by simp
  have pos: "quickRecall ''credential'' 1 rankStore
     = [\<lparr> memory = rowToMemory rankStore (credentialRow ''B'' 0.95 0.9),
          matchScore = 1, finalScore = 0.855 \<rparr>]"
    unfolding q by (rule rank_two [OF ms sc ord])
  from C3_quickRecall_amended [of "''credential''" "- 1" rankStore]
  obtain ranked2 where all2:
    "mset (map memory ranked2) = mset (searchByTextLimit ''credential'' (- 1 * 3) rankStore)
     \<and> (\<forall>r \<in> set ranked2.
           matchScore r = textMatchScore ''credential'' (memory r)
           \<and> finalScore r = matchScore r * score (confidence (memory r)) * relevanceScore (memory r))
     \<and> (\<forall>i j. i \<le> j \<and> j < length ranked2 \<longrightarrow> finalScore (ranked2 ! j) \<le> finalScore (ranked2 ! i))
     \<and> quickRecall ''credential'' (- 1) rankStore =
         (if (0::int) \<le> - 1 then take (nat (- 1)) ranked2
          else take (length ranked2 - nat (- (- 1))) ranked2)"
    by (rule exE)
  from all2 have ms2: "mset (map memory ranked2)
                 = mset [rowToMemory rankStore (credentialRow ''A'' 0.4 1),
                         rowToMemory rankStore (credentialRow ''B'' 0.95 0.9)]"
    using rank_search(2) by simp
  note sc2 = all2 [THEN conjunct2, THEN conjunct1]
  note ord2 = all2 [THEN conjunct2, THEN conjunct2, THEN conjunct1]
  have "size (mset (map memory ranked2)) = 2" unfolding ms2 by simp
  then have len2: "length ranked2 = 2" by simp
  from all2 len2 have q2: "quickRecall ''credential'' (- 1) rankStore = take 1 ranked2" by simp
  have neg: "quickRecall ''credential'' (- 1) rankStore
     = [\<lparr> memory = rowToMemory rankStore (credentialRow ''B'' 0.95 0.9),
          matchScore = 1, finalScore = 0.855 \<rparr>]"
    unfolding q2 by (rule rank_two [OF ms2 sc2 ord2])
  from pos neg rank_search(1) show ?thesis by simp
qed

subsection \<open>recall: the filters\<close>

lemma scoreCandidates_filters:
  "r \<in> set (scoreCandidates query cm) \<Longrightarrow>
   queryMinConfidence query \<le> score (confidence (memory r))
   \<and> (queryMinRelevance query \<le> relevanceScore (memory r) \<or> queryIncludeDecayed query)"
proof (induction query cm rule: scoreCandidates.induct)
  case (1 query)
  then show ?case by simp
next
  case (2 query i mem scores rest)
  then show ?case
    by (auto simp: Let_def split: if_splits)
qed

lemma recall_credential:
  "recall None 5 (plainQuery ''credential'') recallStore
     = Inr ([\<lparr> memory = rowToMemory recallStore recallRow, matchScore = 0.7,
                 finalScore = 0.385 \<rparr>], recallStore)"
  by (simp add: recall_def plainQuery_def queryLimit_def searchByText_def recallStore_def
      recallRow_def staleRow_def orderByRelevanceCreated_def toLowerChar_def Let_def
      textCandidates_def map_set_def map_has_def credential_match rowToMemory_def
      queryMinConfidence_def queryMinRelevance_def queryIncludeDecayed_def computeMatchScore_def
      minFinalScore_def sortByFinalScore_def)

text \<open>
  Claim C8. Every result of full recall has a trust score of at least minConfidence
  (0.3 when the query gives none), a relevance of at least minRelevance (0.1 when the
  query gives none) unless includeDecayed is set, and a final score of at least the
  noise floor 0.15; so no fact that fails one of the filters is in the output.
\<close>

theorem C8_recall_filters:
  assumes "recall embedder now query s = Inr (results, s')" and "r \<in> set results"
  shows "(case minConfidence query of Some c \<Rightarrow> c | None \<Rightarrow> 0.3) \<le> score (confidence (memory r))
       \<and> ((case minRelevance query of Some c \<Rightarrow> c | None \<Rightarrow> 0.1) \<le> relevanceScore (memory r)
            \<or> includeDecayed query = Some True)
       \<and> 0.15 \<le> finalScore r"
proof -
  from assms(1) obtain cm where
    res: "results = take (queryLimit query) (sortByFinalScore
            (filter (\<lambda>r. finalScore r \<ge> minFinalScore) (scoreCandidates query cm)))"
    by (auto simp: recall_def Let_def split: sum.splits option.splits prod.splits)
  from assms(2) have "r \<in> set (sortByFinalScore
            (filter (\<lambda>r. finalScore r \<ge> minFinalScore) (scoreCandidates query cm)))"
    unfolding res by (rule in_set_takeD)
  then have "r \<in> set (scoreCandidates query cm)" and f: "minFinalScore \<le> finalScore r"
    by (simp_all add: sortByFinalScore_def)
  from scoreCandidates_filters [OF this(1)] f show ?thesis
    by (auto simp: queryMinConfidence_def queryMinRelevance_def queryIncludeDecayed_def
        minFinalScore_def split: option.splits)
qed

theorem C8_recall_filters_witness:
  "recall None 5 (plainQuery ''credential'') recallStore
     = Inr ([\<lparr> memory = rowToMemory recallStore recallRow, matchScore = 0.7,
                 finalScore = 0.385 \<rparr>], recallStore)
   \<and> \<lparr> memory = rowToMemory recallStore recallRow, matchScore = 0.7, finalScore = 0.385 \<rparr>
       \<in> set [\<lparr> memory = rowToMemory recallStore recallRow, matchScore = 0.7,
                 finalScore = 0.385 \<rparr>]
   \<and> 0.3 \<le> score (confidence (rowToMemory recallStore recallRow))
   \<and> 0.1 \<le> relevanceScore (rowToMemory recallStore recallRow)
   \<and> (0.15::real) \<le> 0.385"
  using C8_recall_filters [OF recall_credential,
      of "\<lparr> memory = rowToMemory recallStore recallRow, matchScore = 0.7, finalScore = 0.385 \<rparr>"]
    recall_credential
  by (simp add: plainQuery_def)


subsection \<open>recall: effect on the store\<close>

lemma recall_semantic_example:
  "recall (Some (constEmbedder [1])) 7 (plainQuery ''zzz'') recallStore
     = Inr ([\<lparr> memory = rowToMemory recallStore recallRow, matchScore = 0.5,
                 finalScore = 0.275 \<rparr>],
            recallStore\<lparr> memories := [recallRow\<lparr> last_accessed := 7, access_count := 1 \<rparr>] \<rparr>)"
  by (simp add: recall_def plainQuery_def queryLimit_def searchByText_def recallStore_def
      recallRow_def staleRow_def orderByRelevanceCreated_def toLowerChar_def Let_def
      textCandidates_def map_set_def map_has_def rowToMemory_def constEmbedder_def
      getAllEmbeddings_def cosineSimilarity_def getMemory_def getRow_def
      queryMinConfidence_def queryMinRelevance_def queryIncludeDecayed_def computeMatchScore_def
      minFinalScore_def sortByFinalScore_def)

text \<open>
  Claim C6, as stated, fails when an embedding provider is configured: a fact found
  by the semantic channel alone is fetched with getMemory, which sets its last access
  to the current time and increments its access count.
\<close>

theorem C6_counterexample:
  "access_count (hd (memories recallStore)) = 0
   \<and> last_accessed (hd (memories recallStore)) = 0
   \<and> access_count (hd (memories (snd (projr
        (recall (Some (constEmbedder [1])) 7 (plainQuery ''zzz'') recallStore))))) = 1
   \<and> last_accessed (hd (memories (snd (projr
        (recall (Some (constEmbedder [1])) 7 (plainQuery ''zzz'') recallStore))))) = 7"
  by (simp add: recall_semantic_example) (simp add: recallStore_def recallRow_def staleRow_def)

lemma map_has_iff: "map_has cm k \<longleftrightarrow> k \<in> fst ` set cm"
  by (force simp: map_has_def find_None_iff image_iff)

lemma keys_map_keep:
  assumes "\<And>e. fst (g e) = fst e"
  shows "fst ` set (map g cm) = fst ` set cm"
  by (simp add: image_image assms)

lemma map_has_map_keep:
  assumes "\<And>e. fst (g e) = fst e"
  shows "map_has (map g cm) j = map_has cm j"
  unfolding map_has_iff keys_map_keep [of g, OF assms] ..

lemma keys_map_set: "fst ` set (map_set k v cm) = insert k (fst ` set cm)"
proof (cases "map_has cm k")
  case True
  then have k: "k \<in> fst ` set cm" by (simp add: map_has_iff)
  have "fst ` set (map (\<lambda>e. if fst e = k then (k, v) else e) cm) = fst ` set cm"
    by (rule keys_map_keep) simp
  with True k show ?thesis by (auto simp: map_set_def)
next
  case False
  then show ?thesis by (simp add: map_set_def)
qed

lemma keys_fold:
  assumes "\<And>x m. fst ` set (F x m) = insert (k x) (fst ` set m)"
  shows "fst ` set (fold F xs cm) = fst ` set cm \<union> k ` set xs"
  by (induction xs arbitrary: cm) (auto simp: assms)

lemma keys_textCandidates:
  "fst ` set (textCandidates text ms cm) = fst ` set cm \<union> mem_id ` set ms"
  unfolding textCandidates_def by (rule keys_fold) (rule keys_map_set)

lemma keys_entityCandidates:
  "fst ` set (entityCandidates ms cm) = fst ` set cm \<union> mem_id ` set ms"
  unfolding entityCandidates_def
proof (rule keys_fold)
  fix mem :: Memory and m :: CandidateMap
  let ?g = "\<lambda>e. if fst e = mem_id mem
                  then (fst e, fst (snd e), (snd (snd e))\<lparr> s_entity := 1.0 \<rparr>) else e"
  let ?m1 = "if \<not> map_has m (mem_id mem) then map_set (mem_id mem) (mem, zeroScores) m else m"
  have "fst ` set (map ?g ?m1) = fst ` set ?m1"
    by (rule keys_map_keep) simp
  also have "\<dots> = insert (mem_id mem) (fst ` set m)"
    by (auto simp: keys_map_set map_has_iff)
  finally show "fst ` set (let m1 = ?m1 in map ?g m1) = insert (mem_id mem) (fst ` set m)"
    unfolding Let_def .
qed

lemma keys_categoryCandidates:
  "fst ` set (categoryCandidates ms cm) = fst ` set cm \<union> mem_id ` set ms"
  unfolding categoryCandidates_def
  by (rule keys_fold) (auto simp: keys_map_set map_has_iff)

lemma keys_entities_fold:
  "fst ` set (fold (\<lambda>e m. entityCandidates (f e) m) es cm)
     = fst ` set cm \<union> set (concat (map (\<lambda>e. map mem_id (f e)) es))"
  by (induction es arbitrary: cm) (auto simp: keys_entityCandidates)

lemma keys_categories_fold:
  "fst ` set (fold (\<lambda>c m. categoryCandidates (f c) m) cs cm)
     = fst ` set cm \<union> set (concat (map (\<lambda>c. map mem_id (f c)) cs))"
  by (induction cs arbitrary: cm) (auto simp: keys_categoryCandidates)

lemma getMemory_snd:
  "snd (getMemory now i s)
     = s\<lparr> memories := map (\<lambda>r. if row_id r = i
                               then r\<lparr> last_accessed := now, access_count := access_count r + 1 \<rparr>
                               else r) (memories s) \<rparr>"
proof (cases "getRow s i")
  case None
  then have "\<forall>r \<in> set (memories s). row_id r \<noteq> i"
    by (auto simp: getRow_def find_None_iff)
  then have "map (\<lambda>r. if row_id r = i
                       then r\<lparr> last_accessed := now, access_count := access_count r + 1 \<rparr>
                       else r) (memories s) = memories s"
    by (intro map_idI) auto
  with None show ?thesis by (simp add: getMemory_def)
next
  case (Some row)
  then show ?thesis by (simp add: getMemory_def)
qed

lemma semanticCandidates_store:
  assumes "distinct (map fst embs)"
  shows "snd (semanticCandidates now qe embs (cm, s))
     = s\<lparr> memories :=
           map (\<lambda>r. if (\<exists>v. (row_id r, v) \<in> set embs \<and> cosineSimilarity qe v > 0.5
                            \<and> \<not> map_has cm (row_id r))
                     then r\<lparr> last_accessed := now, access_count := access_count r + 1 \<rparr>
                     else r) (memories s) \<rparr>"
  using assms
proof (induction embs arbitrary: cm s)
  case Nil
  then show ?case by simp
next
  case (Cons p rest)
  obtain i emb where p: "p = (i, emb)" by (cases p)
  from Cons.prems p have ni: "\<And>v. (i, v) \<notin> set rest" and dr: "distinct (map fst rest)"
    by (auto simp: image_iff)
  note IH = Cons.IH [OF dr]
  show ?case
  proof (cases "cosineSimilarity qe emb > 0.5 \<and> \<not> map_has cm i")
    case True
    obtain cm' where step: "semanticCandidates now qe (p # rest) (cm, s)
           = semanticCandidates now qe rest (cm', snd (getMemory now i s))"
      and has: "\<And>j. j \<noteq> i \<Longrightarrow> map_has cm' j = map_has cm j"
    proof -
      obtain x1 s' where g: "getMemory now i s = (x1, s')" by (cases "getMemory now i s")
      show ?thesis
      proof (cases x1)
        case None
        show ?thesis
          by (rule that [of cm]) (use None True p g in \<open>simp_all add: Let_def\<close>)
      next
        case (Some mem)
        show ?thesis
          by (rule that [of "map_set i (mem, \<lparr> s_text = 0, s_semantic = cosineSimilarity qe emb,
                                                s_entity = 0 \<rparr>) cm"])
            (use Some True p g in \<open>simp_all add: Let_def map_has_iff keys_map_set\<close>)
      qed
    qed
    have "snd (semanticCandidates now qe (p # rest) (cm, s))
        = (snd (getMemory now i s))\<lparr> memories :=
           map (\<lambda>r. if (\<exists>v. (row_id r, v) \<in> set rest \<and> cosineSimilarity qe v > 0.5
                            \<and> \<not> map_has cm' (row_id r))
                     then r\<lparr> last_accessed := now, access_count := access_count r + 1 \<rparr>
                     else r) (memories (snd (getMemory now i s))) \<rparr>"
      unfolding step by (rule IH)
    also have "\<dots> = s\<lparr> memories :=
           map (\<lambda>r. if (\<exists>v. (row_id r, v) \<in> set (p # rest) \<and> cosineSimilarity qe v > 0.5
                            \<and> \<not> map_has cm (row_id r))
                     then r\<lparr> last_accessed := now, access_count := access_count r + 1 \<rparr>
                     else r) (memories s) \<rparr>"
    proof -
      let ?b = "\<lambda>r. r\<lparr> last_accessed := now, access_count := access_count r + 1 \<rparr>"
      let ?h1 = "\<lambda>r. if row_id r = i then ?b r else r"
      let ?h2 = "\<lambda>r. if (\<exists>v. (row_id r, v) \<in> set rest \<and> cosineSimilarity qe v > 0.5
                            \<and> \<not> map_has cm' (row_id r)) then ?b r else r"
      let ?h = "\<lambda>r. if (\<exists>v. (row_id r, v) \<in> set (p # rest) \<and> cosineSimilarity qe v > 0.5
                            \<and> \<not> map_has cm (row_id r)) then ?b r else r"
      have pt: "?h2 (?h1 r) = ?h r" for r
      proof (cases "row_id r = i")
        case T: True
        then show ?thesis using True ni by (auto simp: p)
      next
        case F: False
        then show ?thesis using has [of "row_id r"] ni by (auto simp: p)
      qed
      have "map ?h2 (map ?h1 (memories s)) = map (\<lambda>r. ?h2 (?h1 r)) (memories s)"
        by (simp only: map_map comp_def)
      also have "\<dots> = map ?h (memories s)"
        by (simp only: pt)
      finally have mm: "map ?h2 (map ?h1 (memories s)) = map ?h (memories s)" .
      have "(s\<lparr> memories := map ?h1 (memories s) \<rparr>)\<lparr> memories :=
              map ?h2 (memories (s\<lparr> memories := map ?h1 (memories s) \<rparr>)) \<rparr>
            = s\<lparr> memories := map ?h2 (map ?h1 (memories s)) \<rparr>"
        by (simp del: map_map)
      then show ?thesis unfolding getMemory_snd mm .
    qed
    finally show ?thesis .
  next
    case False
    obtain cm' where step: "semanticCandidates now qe (p # rest) (cm, s)
           = semanticCandidates now qe rest (cm', s)"
      and has: "\<And>j. map_has cm' j = map_has cm j"
    proof (cases "cosineSimilarity qe emb > 0.5")
      case True
      show ?thesis
      proof (rule that [of "map (\<lambda>e. if fst e = i
                 then (fst e, fst (snd e), (snd (snd e))\<lparr> s_semantic := cosineSimilarity qe emb \<rparr>)
                 else e) cm"])
        show "semanticCandidates now qe (p # rest) (cm, s)
              = semanticCandidates now qe rest (map (\<lambda>e. if fst e = i
                 then (fst e, fst (snd e), (snd (snd e))\<lparr> s_semantic := cosineSimilarity qe emb \<rparr>)
                 else e) cm, s)"
          using True False p by (simp add: Let_def)
      next
        fix j
        show "map_has (map (\<lambda>e. if fst e = i
                 then (fst e, fst (snd e), (snd (snd e))\<lparr> s_semantic := cosineSimilarity qe emb \<rparr>)
                 else e) cm) j = map_has cm j"
          by (rule map_has_map_keep) simp
      qed
    next
      case F: False
      show ?thesis
        by (rule that [of cm]) (use F p in \<open>simp_all add: Let_def\<close>)
    qed
    have "snd (semanticCandidates now qe (p # rest) (cm, s))
        = s\<lparr> memories :=
           map (\<lambda>r. if (\<exists>v. (row_id r, v) \<in> set rest \<and> cosineSimilarity qe v > 0.5
                            \<and> \<not> map_has cm' (row_id r))
                     then r\<lparr> last_accessed := now, access_count := access_count r + 1 \<rparr>
                     else r) (memories s) \<rparr>"
      unfolding step by (rule IH)
    also have "\<dots> = s\<lparr> memories :=
           map (\<lambda>r. if (\<exists>v. (row_id r, v) \<in> set (p # rest) \<and> cosineSimilarity qe v > 0.5
                            \<and> \<not> map_has cm (row_id r))
                     then r\<lparr> last_accessed := now, access_count := access_count r + 1 \<rparr>
                     else r) (memories s) \<rparr>"
    proof -
      have c: "(\<exists>v. (j, v) \<in> set (p # rest) \<and> cosineSimilarity qe v > 0.5 \<and> \<not> map_has cm j)
             = (\<exists>v. (j, v) \<in> set rest \<and> cosineSimilarity qe v > 0.5 \<and> \<not> map_has cm' j)" for j
        using False ni has by (auto simp: p)
      show ?thesis by (simp only: c)
    qed
    finally show ?thesis .
  qed
qed

lemma getAllEmbeddings_mem:
  "(i, v) \<in> set (getAllEmbeddings s)
     \<longleftrightarrow> (\<exists>r \<in> set (memories s). row_id r = i \<and> embedding r = Some v)"
  by (force simp: getAllEmbeddings_def split: option.splits)

lemma embeddings_distinct:
  "distinct (map row_id rows) \<Longrightarrow>
   distinct (map fst (concat (map (\<lambda>r. case embedding r of None \<Rightarrow> []
                                          | Some v \<Rightarrow> [(row_id r, v)]) rows)))"
proof (induction rows)
  case Nil
  then show ?case by simp
next
  case (Cons r rows)
  have sub: "fst ` set (concat (map (\<lambda>r. case embedding r of None \<Rightarrow> []
                                          | Some v \<Rightarrow> [(row_id r, v)]) rows))
             \<subseteq> row_id ` set rows"
    by (auto split: option.splits)
  from Cons sub show ?case
    by (cases "embedding r") auto
qed

lemma getAllEmbeddings_distinct:
  "uniqueIds s \<Longrightarrow> distinct (map fst (getAllEmbeddings s))"
  unfolding uniqueIds_def getAllEmbeddings_def by (rule embeddings_distinct)

lemma recall_gathered:
  assumes "embedText (q_text query) = Some qe"
  shows "\<exists>cm results.
           (\<forall>j. map_has cm j = (j \<in> set (gatheredIds query s)))
           \<and> recall (Some embedText) now query s
               = Inr (results, snd (semanticCandidates now qe (getAllEmbeddings s) (cm, s)))"
proof -
  let ?limit = "queryLimit query"
  let ?cm1 = "textCandidates (q_text query) (searchByText (q_text query) (?limit * 3) s) []"
  let ?cm2 = "case q_entities query of
                   None \<Rightarrow> ?cm1
                 | Some es \<Rightarrow>
                     fold (\<lambda>entityId m. entityCandidates (getEntityMemories entityId (?limit * 2) s) m)
                          es ?cm1"
  let ?cm3 = "case q_categories query of
                   None \<Rightarrow> ?cm2
                 | Some cs \<Rightarrow>
                     fold (\<lambda>cat m. categoryCandidates (searchByCategory cat (?limit * 2) s) m)
                          cs ?cm2"
  have k1: "fst ` set ?cm1 = set (map mem_id (searchByText (q_text query) (?limit * 3) s))"
    by (simp add: keys_textCandidates)
  have k2: "fst ` set ?cm2 = fst ` set ?cm1 \<union> set (case q_entities query of
          None \<Rightarrow> []
        | Some es \<Rightarrow>
            concat (map (\<lambda>e. map mem_id (getEntityMemories e (?limit * 2) s)) es))"
    by (cases "q_entities query") (simp_all only: option.case keys_entities_fold, simp_all)
  have k3: "fst ` set ?cm3 = fst ` set ?cm2 \<union> set (case q_categories query of
          None \<Rightarrow> []
        | Some cs \<Rightarrow>
            concat (map (\<lambda>c. map mem_id (searchByCategory c (?limit * 2) s)) cs))"
    by (cases "q_categories query") (simp_all only: option.case keys_categories_fold, simp_all)
  have keys: "fst ` set ?cm3 = set (gatheredIds query s)"
    unfolding k3 k2 k1 gatheredIds_def by (simp only: set_append Un_assoc)
  have has: "\<forall>j. map_has ?cm3 j = (j \<in> set (gatheredIds query s))"
    unfolding map_has_iff keys by simp
  have r: "recall (Some embedText) now query s
         = Inr (take ?limit (sortByFinalScore
                    (filter (\<lambda>r. finalScore r \<ge> minFinalScore)
                       (scoreCandidates query
                          (fst (semanticCandidates now qe (getAllEmbeddings s) (?cm3, s)))))),
                snd (semanticCandidates now qe (getAllEmbeddings s) (?cm3, s)))"
    unfolding recall_def Let_def using assms
    by (cases "semanticCandidates now qe (getAllEmbeddings s) (?cm3, s)") simp
  show ?thesis
    apply (rule exI [of _ ?cm3])
    apply (rule exI)
    apply (rule conjI)
     apply (rule has)
    apply (rule r)
    done
qed

text \<open>
  Claim C6, amended. Without an embedding provider recall returns its results and
  leaves the store exactly as it was; when the provider rejects the query text, recall
  throws and nothing is written. With a provider that answers, recall returns its
  results and the store after the call is the store before it with exactly one change:
  every fact whose stored vector has cosine similarity above 0.5 to the query vector
  and that is not already a candidate of the text, entity or category channel has
  its last access set to the current time and its access count incremented by one.
  Every other fact, and every other field, table and link, is as before. Identifiers
  are assumed unique (the primary key).
\<close>

theorem C6_recall_frame_amended:
  assumes "uniqueIds s"
  shows "(\<exists>results. recall None now query s = Inr (results, s))
       \<and> (embedText (q_text query) = None \<longrightarrow>
            recall (Some embedText) now query s = Inl EmbedderRejected)
       \<and> (\<forall>queryEmbedding. embedText (q_text query) = Some queryEmbedding \<longrightarrow>
            (\<exists>results. recall (Some embedText) now query s
               = Inr (results,
                      s\<lparr> memories :=
                           map (\<lambda>r. if fetched queryEmbedding query s r
                                     then r\<lparr> last_accessed := now,
                                            access_count := access_count r + 1 \<rparr>
                                     else r) (memories s) \<rparr>)))"
proof (intro conjI allI impI)
  show "\<exists>results. recall None now query s = Inr (results, s)"
    by (simp add: recall_def Let_def)
next
  assume "embedText (q_text query) = None"
  then show "recall (Some embedText) now query s = Inl EmbedderRejected"
    by (simp add: recall_def Let_def)
next
  fix qe
  assume e: "embedText (q_text query) = Some qe"
  from recall_gathered [of embedText query qe s now, OF e]
  obtain cm results where has: "\<forall>j. map_has cm j = (j \<in> set (gatheredIds query s))"
    and r: "recall (Some embedText) now query s
               = Inr (results, snd (semanticCandidates now qe (getAllEmbeddings s) (cm, s)))"
    by blast
  have d: "distinct (map row_id (memories s))" using assms by (simp add: uniqueIds_def)
  have c: "(\<exists>v. (row_id r, v) \<in> set (getAllEmbeddings s) \<and> cosineSimilarity qe v > 0.5
                 \<and> \<not> map_has cm (row_id r)) = fetched qe query s r"
    if "r \<in> set (memories s)" for r
  proof -
    have u: "r' = r" if "r' \<in> set (memories s)" "row_id r' = row_id r" for r'
      using d that \<open>r \<in> set (memories s)\<close> by (meson distinct_map inj_onD)
    have "(row_id r, v) \<in> set (getAllEmbeddings s) \<longleftrightarrow> embedding r = Some v" for v
      unfolding getAllEmbeddings_mem using u \<open>r \<in> set (memories s)\<close> by auto
    then show ?thesis
      by (cases "embedding r") (simp_all add: fetched_def has)
  qed
  have "map (\<lambda>r. if (\<exists>v. (row_id r, v) \<in> set (getAllEmbeddings s) \<and> cosineSimilarity qe v > 0.5
                            \<and> \<not> map_has cm (row_id r))
                     then r\<lparr> last_accessed := now, access_count := access_count r + 1 \<rparr>
                     else r) (memories s)
        = map (\<lambda>r. if fetched qe query s r
                     then r\<lparr> last_accessed := now, access_count := access_count r + 1 \<rparr>
                     else r) (memories s)"
    by (rule map_cong [OF refl]) (simp only: c)
  then have "snd (semanticCandidates now qe (getAllEmbeddings s) (cm, s))
        = s\<lparr> memories := map (\<lambda>r. if fetched qe query s r
                     then r\<lparr> last_accessed := now, access_count := access_count r + 1 \<rparr>
                     else r) (memories s) \<rparr>"
    by (simp only: semanticCandidates_store [OF getAllEmbeddings_distinct [OF assms]])
  with r show "\<exists>results. recall (Some embedText) now query s
               = Inr (results,
                      s\<lparr> memories :=
                           map (\<lambda>r. if fetched qe query s r
                                     then r\<lparr> last_accessed := now,
                                            access_count := access_count r + 1 \<rparr>
                                     else r) (memories s) \<rparr>)"
    by (simp only: exI)
qed

lemma semantic_gathered:
  "gatheredIds (plainQuery ''credential'') semanticStore = [''m1'']"
  by (simp add: gatheredIds_def plainQuery_def queryLimit_def searchByText_def semanticStore_def
      otherRow_def recallRow_def staleRow_def orderByRelevanceCreated_def toLowerChar_def
      Let_def rowToMemory_def)

lemma semantic_fetched:
  "map (\<lambda>r. if fetched [1] (plainQuery ''credential'') semanticStore r
            then r\<lparr> last_accessed := 7, access_count := access_count r + 1 \<rparr> else r)
       (memories semanticStore)
   = [recallRow, (otherRow ''m2'' (Some [1]))\<lparr> last_accessed := 7, access_count := 1 \<rparr>,
      otherRow ''m3'' (Some [- 1]), otherRow ''m4'' None]"
  unfolding fetched_def semantic_gathered
  by (simp add: semanticStore_def otherRow_def recallRow_def staleRow_def cosineSimilarity_def)

theorem C6_recall_frame_amended_witness:
  "uniqueIds semanticStore
   \<and> snd (projr (recall None 7 (plainQuery ''credential'') semanticStore)) = semanticStore
   \<and> recall (Some (\<lambda>text. None)) 7 (plainQuery ''credential'') semanticStore
       = Inl EmbedderRejected
   \<and> constEmbedder [1] (q_text (plainQuery ''credential'')) = Some [1]
   \<and> snd (projr (recall (Some (constEmbedder [1])) 7 (plainQuery ''credential'') semanticStore))
       = semanticStore\<lparr> memories :=
           [recallRow, (otherRow ''m2'' (Some [1]))\<lparr> last_accessed := 7, access_count := 1 \<rparr>,
            otherRow ''m3'' (Some [- 1]), otherRow ''m4'' None] \<rparr>"
proof -
  have u: "uniqueIds semanticStore"
    by (simp add: uniqueIds_def semanticStore_def otherRow_def recallRow_def staleRow_def)
  have e: "constEmbedder [1] (q_text (plainQuery ''credential'')) = Some [1]"
    by (simp add: constEmbedder_def)
  note t = C6_recall_frame_amended [OF u, of 7 "plainQuery ''credential''" "constEmbedder [1]"]
  note n = C6_recall_frame_amended [OF u, of 7 "plainQuery ''credential''" "\<lambda>text. None"]
  from t obtain r0 where a: "recall None 7 (plainQuery ''credential'') semanticStore
                               = Inr (r0, semanticStore)"
    by blast
  from n have b: "recall (Some (\<lambda>text. None)) 7 (plainQuery ''credential'') semanticStore
                    = Inl EmbedderRejected"
    by simp
  from t e obtain r1 where c: "recall (Some (constEmbedder [1])) 7 (plainQuery ''credential'')
        semanticStore
      = Inr (r1, semanticStore\<lparr> memories :=
           map (\<lambda>r. if fetched [1] (plainQuery ''credential'') semanticStore r
                     then r\<lparr> last_accessed := 7, access_count := access_count r + 1 \<rparr> else r)
               (memories semanticStore) \<rparr>)"
    by blast
  show ?thesis
    unfolding a b c semantic_fetched using u e by simp
qed

subsection \<open>Confidence model\<close>

text \<open>
  Claim C7. For every provenance kind and every context flag (the flag being the
  truthiness of the optional context string, which is what the code tests), the
  initial score is the base of the kind (0.90, 0.80, 0.60, 0.50, 0.40), plus 0.05
  when the flag is set, capped at 1 and rounded to two decimals; on these constants
  the cap and the rounding change nothing. With the flag set the rationale ends with
  "has source context", without it that entry is absent.
\<close>

theorem C7_initial_confidence:
  "score (computeInitialConfidence input) =
     min 1 (round2 (SOURCE_BASE_CONFIDENCE (in_type input)
                     + (if truthy (in_context input) then 0.05 else 0)))
   \<and> score (computeInitialConfidence input) =
     (case in_type input of Experienced \<Rightarrow> 0.90 | Observed \<Rightarrow> 0.80 | Told \<Rightarrow> 0.60
        | Read \<Rightarrow> 0.50 | Inferred \<Rightarrow> 0.40)
     + (if truthy (in_context input) then 0.05 else 0)
   \<and> (truthy (in_context input) \<longrightarrow>
        last (basis (computeInitialConfidence input)) = ''has source context'')
   \<and> (\<not> truthy (in_context input) \<longrightarrow>
        ''has source context'' \<notin> set (basis (computeInitialConfidence input)))"
proof -
  let ?k = "in_type input"
  have sc: "score (computeInitialConfidence input) =
     min 1 (round2 (SOURCE_BASE_CONFIDENCE ?k
                     + (if truthy (in_context input) then 0.05 else 0)))"
    by (simp add: computeInitialConfidence_def Let_def)
  have tab: "min 1 (round2 (SOURCE_BASE_CONFIDENCE ?k
                     + (if truthy (in_context input) then 0.05 else 0))) =
     (case ?k of Experienced \<Rightarrow> 0.90 | Observed \<Rightarrow> 0.80 | Told \<Rightarrow> 0.60
        | Read \<Rightarrow> 0.50 | Inferred \<Rightarrow> 0.40)
     + (if truthy (in_context input) then 0.05 else 0)"
    by (cases ?k) (simp_all add: round2_def Math_round_def)
  have l: "truthy (in_context input) \<Longrightarrow>
        last (basis (computeInitialConfidence input)) = ''has source context''"
    by (simp add: computeInitialConfidence_def Let_def)
  have n: "\<not> truthy (in_context input) \<Longrightarrow>
        ''has source context'' \<notin> set (basis (computeInitialConfidence input))"
    by (cases ?k) (simp_all add: computeInitialConfidence_def Let_def)
  from sc tab l n show ?thesis by presburger
qed

theorem C7_initial_confidence_witness:
  "score (computeInitialConfidence
      \<lparr> in_content = ''x'', in_summary = None, in_type = Told, in_actor = Some ''shaun'',
        in_context = Some ''chat'', in_entities = None, in_tags = None,
        in_category = Event, in_decayRate = None, in_pinned = None \<rparr>) = 0.65
   \<and> last (basis (computeInitialConfidence
      \<lparr> in_content = ''x'', in_summary = None, in_type = Told, in_actor = Some ''shaun'',
        in_context = Some ''chat'', in_entities = None, in_tags = None,
        in_category = Event, in_decayRate = None, in_pinned = None \<rparr>)) = ''has source context''
   \<and> score (computeInitialConfidence
      \<lparr> in_content = ''x'', in_summary = None, in_type = Told, in_actor = Some ''shaun'',
        in_context = None, in_entities = None, in_tags = None,
        in_category = Event, in_decayRate = None, in_pinned = None \<rparr>) = 0.60
   \<and> ''has source context'' \<notin> set (basis (computeInitialConfidence
      \<lparr> in_content = ''x'', in_summary = None, in_type = Told, in_actor = Some ''shaun'',
        in_context = None, in_entities = None, in_tags = None,
        in_category = Event, in_decayRate = None, in_pinned = None \<rparr>))"
  using C7_initial_confidence [of "\<lparr> in_content = ''x'', in_summary = None, in_type = Told,
        in_actor = Some ''shaun'', in_context = Some ''chat'', in_entities = None,
        in_tags = None, in_category = Event, in_decayRate = None, in_pinned = None \<rparr>"]
      C7_initial_confidence [of "\<lparr> in_content = ''x'', in_summary = None, in_type = Told,
        in_actor = Some ''shaun'', in_context = None, in_entities = None,
        in_tags = None, in_category = Event, in_decayRate = None, in_pinned = None \<rparr>"]
  by simp

end
